theory Spec2Isabelle
  imports Complex_Main "HOL-Library.Multiset"
begin

section \<open>Viral tweets: the notebook's pipeline\<close>

text \<open>
  The notebook \<^verbatim>\<open>viral_tweets.ipynb\<close> is a linear script of seven code cells. Each cell
  is a call into pandas, numpy or scikit-learn; the embedding follows the cells in order and
  writes out what the called library function computes on the values the notebook passes.

  Numbers: \<^verbatim>\<open>retweet_count\<close> and the two user counters are Python integers (\<^typ>\<open>int\<close>).
  A \<^verbatim>\<open>float64\<close> is modelled by a \<^typ>\<open>real\<close>, and \<^verbatim>\<open>NaN\<close> by \<^term>\<open>None\<close> where the
  code can produce it. An integer of magnitude up to \<open>2^53\<close> converts to \<^verbatim>\<open>float64\<close> without
  rounding, and the median of integers of magnitude up to \<open>2^52\<close> and its comparison with
  them are computed without rounding; larger integers are rounded by the code and not by
  the model, so the statements about values assume these bounds. The standardised
  features and the distances are the exact real values that the \<^verbatim>\<open>float64\<close> results
  approximate.
\<close>

subsection \<open>Errors\<close>

text \<open>
  The notebook has no \<^verbatim>\<open>try\<close>/\<^verbatim>\<open>except\<close>: an exception raised inside a library call ends
  the run. The exceptions the modelled calls can raise are the \<^verbatim>\<open>KeyError\<close> of pandas for a
  column the frame does not have and \<^verbatim>\<open>ValueError\<close>s of scikit-learn; the constructor
  records which check raised. \<open>NonFinite\<close> is no exception: it stands for an array into which
  a division by zero has put \<^verbatim>\<open>NaN\<close> or \<^verbatim>\<open>inf\<close>, values the model's reals do not have.
\<close>

datatype error =
    InvalidInput    \<comment> \<open>\<^verbatim>\<open>KeyError: 'retweet_count'\<close>: the frame of an empty dataset has no columns\<close>
  | NonFinite       \<comment> \<open>\<^verbatim>\<open>Xr /= scale_\<close> with a zero in \<^verbatim>\<open>scale_\<close>\<close>
  | EmptyArray      \<comment> \<open>\<^verbatim>\<open>check_array\<close>: "Found array with 0 sample(s)"\<close>
  | InconsistentLengths \<comment> \<open>\<^verbatim>\<open>check_consistent_length\<close>\<close>
  | EmptyTrainSet   \<comment> \<open>\<^verbatim>\<open>_validate_shuffle_split\<close>: "the resulting train set will be empty"\<close>
  | NonPositiveK    \<comment> \<open>\<^verbatim>\<open>fit\<close>: "Expected n_neighbors > 0"\<close>
  | InvalidK        \<comment> \<open>\<^verbatim>\<open>kneighbors\<close>: "Expected n_neighbors <= n_samples"\<close>

subsection \<open>Cell 2: the records\<close>

record user =
  followers_count :: int
  friends_count :: int

record tweet =
  retweet_count :: int
  tweet_text :: "nat list"   \<comment> \<open>the field \<^verbatim>\<open>text\<close>, a Python \<^verbatim>\<open>str\<close>: a sequence of code points\<close>
  user :: user

text \<open>
  \<^verbatim>\<open>all_tweets = pd.read_json("random_tweets.json", lines=True)\<close>: the frame has one row per
  record of the file and one column per field that occurs in a record. The dataset is the
  list of its records; a frame read from no record has no column at all.

  \<^verbatim>\<open>all_tweets["retweet_count"]\<close>: the column of the frame, in row order; the lookup raises
  \<^verbatim>\<open>KeyError\<close> when the frame has no such column.
\<close>

definition retweet_count_column :: "tweet list \<Rightarrow> error + int list" where
  "retweet_count_column all_tweets =
     (if all_tweets = [] then Inl InvalidInput else Inr (map retweet_count all_tweets))"

subsection \<open>Cell 4: the label\<close>

text \<open>
  \<^verbatim>\<open>Series.median()\<close> on an integer column: the middle element of the sorted values, the
  mean of the two middle elements when their number is even, and \<^verbatim>\<open>NaN\<close> (no exception)
  when the column is empty. pandas converts the column to \<^verbatim>\<open>float64\<close> first; the conversion,
  the sum of the two middle elements and its half are exact for counts of magnitude up to
  \<open>2^52\<close>.
\<close>

definition median :: "int list \<Rightarrow> real option" where
  "median xs =
     (let s = sort xs; n = length xs in
      if n = 0 then None
      else if odd n then Some (of_int (s ! (n div 2)))
      else Some ((of_int (s ! (n div 2 - 1)) + of_int (s ! (n div 2))) / 2))"

text \<open>
  \<^verbatim>\<open>column >= median_retweets\<close>, elementwise: every comparison with \<^verbatim>\<open>NaN\<close> is false.
  numpy compares in \<^verbatim>\<open>float64\<close>, which is the comparison of the integer itself for counts of
  magnitude up to \<open>2^53\<close>.
\<close>

definition ge_float :: "int \<Rightarrow> real option \<Rightarrow> bool" where
  "ge_float x m = (case m of None \<Rightarrow> False | Some v \<Rightarrow> v \<le> of_int x)"

text \<open>
  The two computations of cell 4 on the column: \<^verbatim>\<open>median_retweets = column.median()\<close>, then
  \<^verbatim>\<open>np.where(column >= median_retweets, 1, 0)\<close>. Neither raises.
\<close>

definition is_viral :: "int list \<Rightarrow> error + nat list" where
  "is_viral xs =
     (let median_retweets = median xs in
      Inr (map (\<lambda>x. if ge_float x median_retweets then 1 else 0) xs))"

text \<open>
  Cell 4 as a whole, the Label Builder: both statements look the column up in the frame first,
  \<^verbatim>\<open>all_tweets["retweet_count"].median()\<close> and \<^verbatim>\<open>all_tweets["retweet_count"] >= median_retweets\<close>.
\<close>

definition label_builder :: "tweet list \<Rightarrow> error + nat list" where
  "label_builder all_tweets =
     (case retweet_count_column all_tweets of
        Inl e \<Rightarrow> Inl e
      | Inr column \<Rightarrow> is_viral column)"

text \<open>\<^verbatim>\<open>value_counts()\<close>: how often a label occurs.\<close>

definition value_count :: "nat list \<Rightarrow> nat \<Rightarrow> nat" where
  "value_count ls v = length (filter (\<lambda>l. l = v) ls)"

subsection \<open>Cell 6: the features\<close>

text \<open>
  Three columns are added to the frame: \<^verbatim>\<open>len(tweet['text'])\<close>,
  \<^verbatim>\<open>tweet['user']['followers_count']\<close> and \<^verbatim>\<open>tweet['user']['friends_count']\<close>.
  Cell 8 selects them, in this order, as \<^verbatim>\<open>data\<close>; scikit-learn converts the frame to
  a \<^verbatim>\<open>float64\<close> array, one row per tweet. The conversion rounds an integer of magnitude
  above \<open>2^53\<close>; \<open>exact_features\<close> says that the three integers of a tweet are within that
  bound, so that the array holds them unchanged.
\<close>

type_synonym matrix = "real list list"

definition features :: "tweet \<Rightarrow> real list" where
  "features t =
     [real (length (tweet_text t)),
      of_int (followers_count (user t)),
      of_int (friends_count (user t))]"

definition data :: "tweet list \<Rightarrow> matrix" where
  "data all_tweets = map features all_tweets"

definition exact_features :: "tweet \<Rightarrow> bool" where
  "exact_features t =
     (int (length (tweet_text t)) \<le> 2 ^ 53
      \<and> \<bar>followers_count (user t)\<bar> \<le> 2 ^ 53
      \<and> \<bar>friends_count (user t)\<bar> \<le> 2 ^ 53)"

subsection \<open>Cell 8: \<^verbatim>\<open>scale(data, axis=0)\<close>\<close>

text \<open>The arithmetic mean of a vector, \<^verbatim>\<open>np.mean\<close>.\<close>

definition mean :: "real list \<Rightarrow> real" where
  "mean v = sum_list v / real (length v)"

text \<open>
  \<^verbatim>\<open>np.std\<close> with its default \<^verbatim>\<open>ddof=0\<close>: the square root of the mean of the squared
  deviations from the mean.
\<close>

definition std :: "real list \<Rightarrow> real" where
  "std v = sqrt (mean (map (\<lambda>x. (x - mean v)\<^sup>2) v))"

definition n_features :: "matrix \<Rightarrow> nat" where
  "n_features X = (case X of [] \<Rightarrow> 0 | r # _ \<Rightarrow> length r)"

definition column :: "matrix \<Rightarrow> nat \<Rightarrow> real list" where
  "column X j = map (\<lambda>r. r ! j) X"

text \<open>\<^verbatim>\<open>np.nanmean(X, axis=0)\<close> and \<^verbatim>\<open>np.nanstd(X, axis=0)\<close>: one value per column.\<close>

definition nanmean0 :: "matrix \<Rightarrow> real list" where
  "nanmean0 X = map (\<lambda>j. mean (column X j)) [0..<n_features X]"

definition nanstd0 :: "matrix \<Rightarrow> real list" where
  "nanstd0 X = map (\<lambda>j. std (column X j)) [0..<n_features X]"

text \<open>\<^verbatim>\<open>Xr -= v\<close>: the vector is broadcast over the rows.\<close>

definition sub_rows :: "matrix \<Rightarrow> real list \<Rightarrow> matrix" where
  "sub_rows X v = map (\<lambda>r. map2 (-) r v) X"

text \<open>
  \<^verbatim>\<open>Xr /= v\<close>, broadcast likewise. A zero in \<open>v\<close> makes numpy store \<^verbatim>\<open>NaN\<close> or \<^verbatim>\<open>inf\<close> in that
  column (with a warning, not an exception); the division of the reals, where \<open>x / 0 = 0\<close>,
  is not what the code computes there, so the model gives no matrix.
\<close>

definition div_rows :: "matrix \<Rightarrow> real list \<Rightarrow> matrix option" where
  "div_rows X v = (if 0 \<in> set v then None else Some (map (\<lambda>r. map2 (/) r v) X))"

text \<open>\<^verbatim>\<open>np.allclose(v, 0)\<close>: every entry within the absolute tolerance \<open>1e-8\<close>.\<close>

definition allclose0 :: "real list \<Rightarrow> bool" where
  "allclose0 v = list_all (\<lambda>m. \<bar>m\<bar> \<le> 1 / 10 ^ 8) v"

text \<open>
  \<^verbatim>\<open>_handle_zeros_in_scale\<close>: \<^verbatim>\<open>scale[scale == 0.0] = 1.0\<close>. (Recent versions of the library
  also replace a scale below \<^verbatim>\<open>10 * eps\<close>; a column of integers has a standard deviation of
  0 or of at least \<open>1 / N\<close>, far above that.)
\<close>

definition handle_zeros_in_scale :: "real list \<Rightarrow> real list" where
  "handle_zeros_in_scale s = map (\<lambda>x. if x = 0 then 1 else x) s"

text \<open>
  \<^verbatim>\<open>sklearn.preprocessing.scale\<close> with its defaults \<^verbatim>\<open>with_mean=True, with_std=True\<close>.
  \<^verbatim>\<open>check_array\<close> refuses an array without rows. The function then centres the columns,
  centres them again if the new column means are not close to zero, divides by the standard
  deviations, where a zero has been replaced by one, and centres once more if needed.
  The replacement leaves no zero to divide by, so the outcome \<open>NonFinite\<close> is never reached.
  The library's local names \<^verbatim>\<open>mean_\<close>, \<^verbatim>\<open>scale_\<close>, \<^verbatim>\<open>mean_1\<close> and \<^verbatim>\<open>mean_2\<close> are written
  \<open>mean0\<close>, \<open>scale0\<close>, \<open>mean1\<close> and \<open>mean2\<close>; each rebinding of \<open>Xr\<close> and \<open>scale0\<close> is
  an update in place of the source.
\<close>

definition scale :: "matrix \<Rightarrow> error + matrix" where
  "scale X =
     (if X = [] then Inl EmptyArray
      else
        let mean0 = nanmean0 X;
            scale0 = nanstd0 X;
            Xr = sub_rows X mean0;
            mean1 = nanmean0 Xr;
            Xr = (if \<not> allclose0 mean1 then sub_rows Xr mean1 else Xr);
            scale0 = handle_zeros_in_scale scale0
        in case div_rows Xr scale0 of
             None \<Rightarrow> Inl NonFinite
           | Some Xr \<Rightarrow>
               let mean2 = nanmean0 Xr;
                   Xr = (if \<not> allclose0 mean2 then sub_rows Xr mean2 else Xr)
               in Inr Xr)"

subsection \<open>Cell 10: \<^verbatim>\<open>train_test_split(scaled_data, labels, test_size=0.2, random_state=1)\<close>\<close>

text \<open>\<^verbatim>\<open>_safe_indexing(a, ind)\<close>: the rows of \<open>a\<close> at the positions \<open>ind\<close>, in the order of \<open>ind\<close>.\<close>

definition safe_indexing :: "'a list \<Rightarrow> nat list \<Rightarrow> 'a list" where
  "safe_indexing a ind = map (\<lambda>i. a ! i) ind"

text \<open>
  \<^verbatim>\<open>_validate_shuffle_split\<close> for \<^verbatim>\<open>test_size=0.2\<close>, \<^verbatim>\<open>train_size=None\<close>:
  \<^verbatim>\<open>n_test = ceil(0.2 * n_samples)\<close>, \<^verbatim>\<open>n_train = n_samples - n_test\<close>.
  The \<^verbatim>\<open>float64\<close> product has the ceiling of the exact fifth of \<open>n_samples\<close>: it rounds to
  the integer when 5 divides \<open>n_samples\<close> (the constant \<^verbatim>\<open>0.2\<close> is off by less than half
  a unit in the last place), and it is about 0.2 away from every integer otherwise.
\<close>

definition n_test_of :: "nat \<Rightarrow> nat" where
  "n_test_of n_samples = nat \<lceil>real n_samples / 5\<rceil>"

text \<open>
  The split itself. \<open>permutation\<close> is the value of \<^verbatim>\<open>rng.permutation(n_samples)\<close> for the
  generator seeded with \<^verbatim>\<open>random_state=1\<close>; \<^verbatim>\<open>ShuffleSplit\<close> takes its first \<open>n_test\<close>
  entries as the test rows and the following \<open>n_train\<close> entries as the training rows, and
  both arrays are indexed with the same two index vectors. The result is in the order the
  notebook unpacks it: \<^verbatim>\<open>train_data, test_data, train_labels, test_labels\<close>.
\<close>

definition train_test_split ::
  "nat list \<Rightarrow> 'a list \<Rightarrow> 'b list \<Rightarrow> error + ('a list \<times> 'a list \<times> 'b list \<times> 'b list)" where
  "train_test_split permutation X y =
     (let n_samples = length X in
      if length y \<noteq> n_samples then Inl InconsistentLengths
      else
        let n_test = n_test_of n_samples;
            n_train = n_samples - n_test
        in if n_train = 0 then Inl EmptyTrainSet
           else
             let ind_test = take n_test permutation;
                 ind_train = take n_train (drop n_test permutation)
             in Inr (safe_indexing X ind_train, safe_indexing X ind_test,
                     safe_indexing y ind_train, safe_indexing y ind_test))"

text \<open>What \<^verbatim>\<open>rng.permutation(n)\<close> returns: every index below \<open>n\<close> exactly once.\<close>

definition is_permutation :: "nat list \<Rightarrow> nat \<Rightarrow> bool" where
  "is_permutation p n = (mset p = mset [0..<n])"

subsection \<open>Cells 12 and 14: the classifier and the sweep\<close>

text \<open>
  The classifier object: its parameter and, after \<^verbatim>\<open>fit\<close>, the training arrays.
\<close>

record classifier =
  n_neighbors :: nat
  fit_X :: matrix
  fit_y :: "nat list"

definition KNeighborsClassifier :: "nat \<Rightarrow> classifier" where
  "KNeighborsClassifier k = \<lparr>n_neighbors = k, fit_X = [], fit_y = []\<rparr>"

text \<open>
  \<^verbatim>\<open>classifier.fit(X, y)\<close> validates the two arrays, stores them and checks that
  \<^verbatim>\<open>n_neighbors\<close> is positive; the object is mutated in place, the model returns it.
\<close>

definition fit :: "classifier \<Rightarrow> matrix \<Rightarrow> nat list \<Rightarrow> error + classifier" where
  "fit clf X y =
     (if X = [] then Inl EmptyArray
      else if length y \<noteq> length X then Inl InconsistentLengths
      else if n_neighbors clf = 0 then Inl NonPositiveK
      else Inr (clf\<lparr>fit_X := X, fit_y := y\<rparr>))"

text \<open>The Euclidean distance of two feature vectors (the default metric).\<close>

definition sq_dist :: "real list \<Rightarrow> real list \<Rightarrow> real" where
  "sq_dist a b = sum_list (map2 (\<lambda>x y. (x - y)\<^sup>2) a b)"

definition euclidean :: "real list \<Rightarrow> real list \<Rightarrow> real" where
  "euclidean a b = sqrt (sq_dist a b)"

text \<open>
  The neighbour search of the library is a parameter of \<open>predict\<close>, a function from \<open>k\<close>,
  the training rows and a query row to \<open>k\<close> row positions.
\<close>

type_synonym search = "nat \<Rightarrow> matrix \<Rightarrow> real list \<Rightarrow> nat list"

text \<open>
  What the library's search computes: the training rows ranked by their distance to the
  query, the first \<open>k\<close> of them. Which of several equidistant rows come first depends on the
  search structure the library builds; \<open>tie k q\<close> ranks the row positions in that order, and
  every choice the library can make among equidistant rows is the choice of some \<open>tie\<close>.
  Both sorts are stable, so the rows are in the order of their distance, equidistant rows in
  the order of \<open>tie\<close>.
\<close>

definition nearest_search :: "(nat \<Rightarrow> real list \<Rightarrow> nat \<Rightarrow> nat) \<Rightarrow> search" where
  "nearest_search tie k X q =
     take k (sort_key (\<lambda>i. euclidean (X ! i) q) (sort_key (tie k q) [0..<length X]))"

text \<open>
  The same search with the squared distance as the key and the equidistant rows in training
  order, which evaluates on rational inputs.
\<close>

definition brute_search :: search where
  "brute_search k X q = take k (sort_key (\<lambda>i. sq_dist (X ! i) q) [0..<length X])"

text \<open>
  \<^verbatim>\<open>scipy.stats.mode\<close> of the neighbours' labels: the most frequent value, the smallest one
  when several are equally frequent.
\<close>

definition mode :: "nat list \<Rightarrow> nat" where
  "mode ls =
     (let vs = sort (remdups ls);
          best = fold max (map (count_list ls) vs) 0
      in case filter (\<lambda>v. count_list ls v = best) vs of [] \<Rightarrow> 0 | v # _ \<Rightarrow> v)"

text \<open>
  \<^verbatim>\<open>classifier.predict(X)\<close>: \<^verbatim>\<open>check_array\<close> refuses an empty query array, \<^verbatim>\<open>kneighbors\<close>
  raises when \<^verbatim>\<open>n_neighbors > n_samples_fit\<close>, and each query row gets the mode of the
  labels of its neighbours.
\<close>

definition predict :: "search \<Rightarrow> classifier \<Rightarrow> matrix \<Rightarrow> error + nat list" where
  "predict kneighbors clf X =
     (if X = [] then Inl EmptyArray
      else if n_neighbors clf > length (fit_X clf) then Inl InvalidK
      else Inr (map (\<lambda>q. mode (safe_indexing (fit_y clf) (kneighbors (n_neighbors clf) (fit_X clf) q))) X))"

text \<open>
  \<^verbatim>\<open>accuracy_score(y_true, y_pred)\<close>: the two vectors must have the same length; the score is
  the fraction of positions where prediction and label agree.
\<close>

definition accuracy_score :: "nat list \<Rightarrow> nat list \<Rightarrow> error + real" where
  "accuracy_score y_true y_pred =
     (if length y_true \<noteq> length y_pred then Inl InconsistentLengths
      else Inr (real (length (filter (\<lambda>(t, p). t = p) (zip y_true y_pred)))
                / real (length y_true)))"

text \<open>\<^verbatim>\<open>classifier.score(X, y)\<close> is \<^verbatim>\<open>accuracy_score(y, self.predict(X))\<close>.\<close>

definition score :: "search \<Rightarrow> classifier \<Rightarrow> matrix \<Rightarrow> nat list \<Rightarrow> error + real" where
  "score kneighbors clf X y =
     (case predict kneighbors clf X of
        Inl e \<Rightarrow> Inl e
      | Inr y_pred \<Rightarrow> accuracy_score y y_pred)"

text \<open>
  Cell 12: \<^verbatim>\<open>classifier = KNeighborsClassifier(n_neighbors=5)\<close>, \<^verbatim>\<open>fit\<close>, \<^verbatim>\<open>score\<close>.
\<close>

definition model_score ::
  "search \<Rightarrow> matrix \<Rightarrow> nat list \<Rightarrow> matrix \<Rightarrow> nat list \<Rightarrow> error + real" where
  "model_score kneighbors train_data train_labels test_data test_labels =
     (case fit (KNeighborsClassifier 5) train_data train_labels of
        Inl e \<Rightarrow> Inl e
      | Inr classifier \<Rightarrow> score kneighbors classifier test_data test_labels)"

text \<open>
  Cell 14: the loop \<^verbatim>\<open>for k in range(1, 200)\<close> over the remaining values of \<open>k\<close>, with the
  list \<^verbatim>\<open>scores\<close> built so far. An exception leaves the loop and ends the run.
\<close>

fun sweep_loop ::
  "search \<Rightarrow> matrix \<Rightarrow> nat list \<Rightarrow> matrix \<Rightarrow> nat list \<Rightarrow> nat list \<Rightarrow> real list \<Rightarrow> error + real list"
where
  "sweep_loop kneighbors train_data train_labels test_data test_labels [] scores = Inr scores"
| "sweep_loop kneighbors train_data train_labels test_data test_labels (k # ks) scores =
     (case fit (KNeighborsClassifier k) train_data train_labels of
        Inl e \<Rightarrow> Inl e
      | Inr classifier \<Rightarrow>
          (case score kneighbors classifier test_data test_labels of
             Inl e \<Rightarrow> Inl e
           | Inr s \<Rightarrow>
               sweep_loop kneighbors train_data train_labels test_data test_labels ks (scores @ [s])))"

definition sweep ::
  "search \<Rightarrow> matrix \<Rightarrow> nat list \<Rightarrow> matrix \<Rightarrow> nat list \<Rightarrow> error + real list" where
  "sweep kneighbors train_data train_labels test_data test_labels =
     sweep_loop kneighbors train_data train_labels test_data test_labels [1..<200] []"

text \<open>\<^verbatim>\<open>plt.plot(range(1, 200), scores)\<close>: the points of the plotted line.\<close>

definition plot_points :: "real list \<Rightarrow> (nat \<times> real) list" where
  "plot_points scores = zip [1..<200] scores"

subsection \<open>Notions used in the statements\<close>

text \<open>
  The column statistics in the words of the specification: the mean \<open>\<mu>\<close> of column \<open>j\<close>
  over all \<open>N\<close> rows, and the population standard deviation \<open>\<sigma>\<close>, which divides by \<open>N\<close>.
\<close>

definition column_mean :: "matrix \<Rightarrow> nat \<Rightarrow> real" where
  "column_mean X j = (\<Sum>i<length X. X ! i ! j) / real (length X)"

definition population_std :: "matrix \<Rightarrow> nat \<Rightarrow> real" where
  "population_std X j =
     sqrt ((\<Sum>i<length X. (X ! i ! j - column_mean X j)\<^sup>2) / real (length X))"

text \<open>
  A \<open>k\<close>-nearest-neighbour classifier in the words of the specification. The Euclidean
  distance on the 3 features; \<open>ind\<close> holds \<open>k\<close> nearest training rows of a query when it has
  \<open>k\<close> distinct row positions and no row left out is nearer than a row in it; \<open>l\<close> is the
  majority label of a list of labels when it occurs in the list, no label occurs more often,
  and it is the smallest of the labels that occur as often (the tie-break of the library).
\<close>

definition euclidean3 :: "real list \<Rightarrow> real list \<Rightarrow> real" where
  "euclidean3 a b = sqrt ((a ! 0 - b ! 0)\<^sup>2 + (a ! 1 - b ! 1)\<^sup>2 + (a ! 2 - b ! 2)\<^sup>2)"

definition k_nearest_rows :: "matrix \<Rightarrow> real list \<Rightarrow> nat \<Rightarrow> nat list \<Rightarrow> bool" where
  "k_nearest_rows X q k ind =
     (length ind = k \<and> distinct ind \<and> list_all (\<lambda>i. i < length X) ind \<and>
      list_all (\<lambda>i. list_all (\<lambda>j. j \<in> set ind \<or> euclidean3 (X ! i) q \<le> euclidean3 (X ! j) q)
                  [0..<length X]) ind)"

definition majority_label :: "nat list \<Rightarrow> nat \<Rightarrow> bool" where
  "majority_label ls l =
     (l \<in> set ls \<and>
      list_all (\<lambda>l'. count_list ls l' \<le> count_list ls l
                   \<and> (count_list ls l' = count_list ls l \<longrightarrow> l \<le> l')) ls)"

text \<open>
  The three statements that cell 12 runs for \<open>k = 5\<close> and the body of the loop of cell 14
  runs for each \<open>k\<close>: a fresh classifier, \<^verbatim>\<open>fit\<close> on the training rows, \<^verbatim>\<open>score\<close> on the
  test rows.
\<close>

definition evaluate_k ::
  "search \<Rightarrow> matrix \<Rightarrow> nat list \<Rightarrow> matrix \<Rightarrow> nat list \<Rightarrow> nat \<Rightarrow> error + real" where
  "evaluate_k kneighbors train_data train_labels test_data test_labels k =
     (case fit (KNeighborsClassifier k) train_data train_labels of
        Inl e \<Rightarrow> Inl e
      | Inr classifier \<Rightarrow> score kneighbors classifier test_data test_labels)"

text \<open>
  The label a \<open>k\<close>-nearest-neighbour classifier fitted on the training rows gives to a query
  row: the vote of the labels of the \<open>k\<close> rows the search returns.
\<close>

definition knn_label :: "search \<Rightarrow> nat \<Rightarrow> matrix \<Rightarrow> nat list \<Rightarrow> real list \<Rightarrow> nat" where
  "knn_label kneighbors k train_data train_labels q =
     mode (safe_indexing train_labels (kneighbors k train_data q))"

text \<open>
  The accuracy on the test rows: the number of test rows whose predicted label is their
  label, divided by the number of test rows.
\<close>

definition knn_accuracy ::
  "search \<Rightarrow> matrix \<Rightarrow> nat list \<Rightarrow> matrix \<Rightarrow> nat list \<Rightarrow> nat \<Rightarrow> real" where
  "knn_accuracy kneighbors train_data train_labels test_data test_labels k =
     real (length (filter
       (\<lambda>j. knn_label kneighbors k train_data train_labels (test_data ! j) = test_labels ! j)
       [0..<length test_data]))
     / real (length test_data)"

subsection \<open>Sample inputs\<close>

text \<open>A tweet with the given retweet count, for the evaluated instances below.\<close>

definition tw :: "int \<Rightarrow> tweet" where
  "tw r = \<lparr>retweet_count = r, tweet_text = [104, 105],
            user = \<lparr>followers_count = 7, friends_count = 3\<rparr>\<rparr>"

text \<open>A tweet with a text of the given length and the given user counters.\<close>

definition tweet_with :: "nat \<Rightarrow> int \<Rightarrow> int \<Rightarrow> tweet" where
  "tweet_with len followers friends =
     \<lparr>retweet_count = 0, tweet_text = replicate len 97,
      user = \<lparr>followers_count = followers, friends_count = friends\<rparr>\<rparr>"

text \<open>A training set of 199 rows, the least that the whole sweep accepts, with its labels.\<close>

definition train199 :: matrix where
  "train199 = map (\<lambda>i. [real i, 0, 0]) [0..<199]"

definition labels199 :: "nat list" where
  "labels199 = map (\<lambda>i. i mod 2) [0..<199]"

section \<open>Properties\<close>

subsection \<open>The label\<close>

lemma median_nonempty:
  assumes "xs \<noteq> []"
  shows "median xs =
    Some (if odd (length xs) then of_int (sort xs ! (length xs div 2))
          else (of_int (sort xs ! (length xs div 2 - 1)) + of_int (sort xs ! (length xs div 2))) / 2)"
  using assms by (simp add: median_def Let_def)

lemma median_empty: "median [] = None"
  by (simp add: median_def)

lemma is_viral_Inr:
  "is_viral xs = Inr (map (\<lambda>x. if ge_float x (median xs) then 1 else 0) xs)"
  by (simp add: is_viral_def)

lemma median_le_upper_middle:
  assumes "xs \<noteq> []" and "median xs = Some m"
  shows "m \<le> of_int (sort xs ! (length xs div 2))"
proof (cases "odd (length xs)")
  case True
  with assms show ?thesis by (simp add: median_nonempty)
next
  case False
  let ?n = "length xs"
  from assms(1) False have pos: "0 < ?n div 2"
    by (cases xs) auto
  have "sort xs ! (?n div 2 - 1) \<le> sort xs ! (?n div 2)"
    using pos by (intro sorted_nth_mono) auto
  with assms False show ?thesis by (simp add: median_nonempty)
qed

lemma length_filter_drop_ge:
  assumes "\<And>x. x \<in> set (drop k ys) \<Longrightarrow> P x"
  shows "length ys - k \<le> length (filter P ys)"
proof -
  have "length (filter P ys) = length (filter P (take k ys)) + length (filter P (drop k ys))"
    by (metis append_take_drop_id filter_append length_append)
  moreover have "filter P (drop k ys) = drop k ys"
    using assms by (simp add: filter_id_conv)
  ultimately show ?thesis by simp
qed

lemma length_filter_sort:
  "length (filter P (sort xs)) = length (filter P (xs :: int list))"
proof -
  have "mset (filter P (sort xs)) = mset (filter P xs)"
    by simp
  then show ?thesis by (metis size_mset)
qed

lemma count_ge_median:
  assumes "xs \<noteq> []" and "median xs = Some m"
  shows "length xs - length xs div 2 \<le> length (filter (\<lambda>x. m \<le> of_int x) xs)"
proof -
  let ?s = "sort xs" and ?k = "length xs div 2"
  have "m \<le> of_int x" if "x \<in> set (drop ?k ?s)" for x
  proof -
    from that obtain j where j: "j < length (drop ?k ?s)" "x = drop ?k ?s ! j"
      by (auto simp: in_set_conv_nth)
    then have "?s ! ?k \<le> x"
      by (auto intro!: sorted_nth_mono)
    with median_le_upper_middle [OF assms] show ?thesis by linarith
  qed
  then have "length ?s - ?k \<le> length (filter (\<lambda>x. m \<le> of_int x) ?s)"
    by (rule length_filter_drop_ge)
  then show ?thesis by (simp add: length_filter_sort)
qed

lemma value_count_map:
  "value_count (map f xs) v = length (filter (\<lambda>x. f x = v) xs)"
  by (simp add: value_count_def filter_map comp_def)

lemma value_counts_sum:
  "value_count (map (\<lambda>x. if P x then 1 else 0) xs) 1
   + value_count (map (\<lambda>x. if P x then 1 else 0) xs) 0 = length xs"
  by (induction xs) (simp_all add: value_count_def)


lemma label_builder_nonempty:
  assumes "all_tweets \<noteq> []"
  shows "label_builder all_tweets = is_viral (map retweet_count all_tweets)"
  using assms by (simp add: label_builder_def retweet_count_column_def)

text \<open>
  Claim C1. For every record of a non-empty dataset, whose retweet counts are within the
  range where \<^verbatim>\<open>float64\<close> computes the median without rounding (magnitude up to \<open>2^52\<close>), the
  label \<open>is_viral\<close> is 1 exactly when the record's \<open>retweet_count\<close> is at least the median of
  \<open>retweet_count\<close> over all records, and 0 otherwise. The median is one value for the whole
  dataset: the middle element of the sorted counts, or the average of the two middle
  elements when their number is even.
\<close>

theorem label_builder_correct:
  assumes "all_tweets \<noteq> []"
    and "\<forall>t\<in>set all_tweets. \<bar>retweet_count t\<bar> \<le> 2 ^ 52"
  shows "\<exists>column m ls.
    retweet_count_column all_tweets = Inr column
    \<and> column = map retweet_count all_tweets
    \<and> median column = Some m
    \<and> m = (let s = sort column; n = length all_tweets in
           if odd n then of_int (s ! (n div 2))
           else (of_int (s ! (n div 2 - 1)) + of_int (s ! (n div 2))) / 2)
    \<and> label_builder all_tweets = Inr ls
    \<and> length ls = length all_tweets
    \<and> (\<forall>i < length all_tweets.
          (ls ! i = 1 \<longleftrightarrow> m \<le> of_int (retweet_count (all_tweets ! i)))
        \<and> (ls ! i = 0 \<longleftrightarrow> \<not> m \<le> of_int (retweet_count (all_tweets ! i))))"
proof -
  let ?xs = "map retweet_count all_tweets"
  from assms(1) have ne: "?xs \<noteq> []" by simp
  from assms(1) have col: "retweet_count_column all_tweets = Inr ?xs"
    by (simp add: retweet_count_column_def)
  obtain m where m: "median ?xs = Some m"
    using median_nonempty [OF ne] by simp
  have shape: "m = (let s = sort ?xs; n = length all_tweets in
           if odd n then of_int (s ! (n div 2))
           else (of_int (s ! (n div 2 - 1)) + of_int (s ! (n div 2))) / 2)"
    using m median_nonempty [OF ne] by (auto simp: Let_def)
  let ?ls = "map (\<lambda>x. if ge_float x (median ?xs) then 1 else 0 :: nat) ?xs"
  have ls: "label_builder all_tweets = Inr ?ls"
    by (simp only: label_builder_nonempty [OF assms(1)] is_viral_Inr)
  have len: "length ?ls = length all_tweets" by simp
  have each: "(?ls ! i = 1 \<longleftrightarrow> m \<le> of_int (retweet_count (all_tweets ! i)))
        \<and> (?ls ! i = 0 \<longleftrightarrow> \<not> m \<le> of_int (retweet_count (all_tweets ! i)))"
    if "i < length all_tweets" for i
    using that m by (simp add: ge_float_def)
  from col m shape ls len each show ?thesis by blast
qed

theorem label_builder_correct_witness:
  "[tw 3, tw 1, tw 2, tw 10] \<noteq> []
   \<and> list_all (\<lambda>t. \<bar>retweet_count t\<bar> \<le> 2 ^ 52) [tw 3, tw 1, tw 2, tw 10]
   \<and> retweet_count_column [tw 3, tw 1, tw 2, tw 10] = Inr [3, 1, 2, 10]
   \<and> median [3, 1, 2, 10] = Some (5 / 2)
   \<and> label_builder [tw 3, tw 1, tw 2, tw 10] = Inr [1, 0, 0, 1]"
proof -
  have b: "\<forall>t\<in>set [tw 3, tw 1, tw 2, tw 10]. \<bar>retweet_count t\<bar> \<le> 2 ^ 52"
    by (simp add: tw_def)
  from label_builder_correct [of "[tw 3, tw 1, tw 2, tw 10]", OF _ b] b
  show ?thesis
    by (simp add: retweet_count_column_def label_builder_def tw_def is_viral_def median_def
        ge_float_def)
qed



lemma median_mset_cong:
  assumes "mset ys = mset xs"
  shows "median ys = median xs"
proof -
  have "sort ys = sort xs"
    using assms by (metis sorted_list_of_multiset_mset)
  moreover have "length ys = length xs"
    using assms by (metis size_mset)
  ultimately show ?thesis by (simp add: median_def)
qed

lemma mset_safe_indexing:
  assumes "is_permutation p (length xs)"
  shows "mset (safe_indexing xs p) = mset xs"
proof -
  have "mset (safe_indexing xs p) = image_mset ((!) xs) (mset p)"
    by (simp add: safe_indexing_def)
  also have "\<dots> = image_mset ((!) xs) (mset [0..<length xs])"
    using assms by (simp add: is_permutation_def)
  also have "\<dots> = mset (map ((!) xs) [0..<length xs])"
    by simp
  also have "\<dots> = mset xs"
    by (simp add: map_nth)
  finally show ?thesis .
qed

lemma is_permutation_set:
  assumes "is_permutation p n"
  shows "set p = {0..<n}"
proof -
  have "set_mset (mset p) = set_mset (mset [0..<n])"
    using assms by (simp add: is_permutation_def)
  then show ?thesis by simp
qed

text \<open>
  Claim C8. For every non-empty sequence of retweet counts, the numbers of labels 1 and 0
  add up to the length of the sequence, and reordering the sequence by any permutation
  reorders the labels in the same way: each record keeps its label, which depends on the
  record's value and on the median of the multiset of counts only.
\<close>

theorem label_counts_and_reordering:
  assumes "xs \<noteq> []" and "is_viral xs = Inr ls" and "is_permutation p (length xs)"
  shows "value_count ls 1 + value_count ls 0 = length xs
    \<and> is_viral (safe_indexing xs p) = Inr (safe_indexing ls p)"
proof
  let ?f = "\<lambda>m x. if ge_float x m then 1 else 0 :: nat"
  from assms(2) have ls: "ls = map (?f (median xs)) xs"
    by (simp add: is_viral_Inr)
  show "value_count ls 1 + value_count ls 0 = length xs"
    unfolding ls by (rule value_counts_sum)
  note p = assms(3)
  have med: "median (safe_indexing xs p) = median xs"
    by (rule median_mset_cong) (rule mset_safe_indexing [OF p])
  have "map (?f (median xs)) (safe_indexing xs p) = safe_indexing ls p"
    using is_permutation_set [OF p] by (auto simp: safe_indexing_def ls)
  then show "is_viral (safe_indexing xs p) = Inr (safe_indexing ls p)"
    by (simp add: is_viral_Inr med)
qed

theorem label_counts_and_reordering_witness:
  "[3, 1, 2, 10 :: int] \<noteq> [] \<and> is_viral [3, 1, 2, 10] = Inr [1, 0, 0, 1]
   \<and> is_permutation [2, 0, 3, 1] (length [3, 1, 2, 10 :: int])
   \<and> value_count [1, 0, 0, 1] 1 + value_count [1, 0, 0, 1] 0 = length [3, 1, 2, 10 :: int]
   \<and> is_viral (safe_indexing [3, 1, 2, 10] [2, 0, 3, 1]) = Inr (safe_indexing [1, 0, 0, 1] [2, 0, 3, 1])
   \<and> safe_indexing [3, 1, 2, 10 :: int] [2, 0, 3, 1] = [2, 3, 10, 1]
   \<and> safe_indexing [1, 0, 0, 1 :: nat] [2, 0, 3, 1] = [0, 1, 1, 0]"
proof -
  have ne: "[3, 1, 2, 10 :: int] \<noteq> []" by simp
  have v: "is_viral [3, 1, 2, 10] = Inr [1, 0, 0, 1]"
    by (simp add: is_viral_def median_def ge_float_def)
  have p: "is_permutation [2, 0, 3, 1] (length [3, 1, 2, 10 :: int])"
    by code_simp
  have s: "safe_indexing [3, 1, 2, 10 :: int] [2, 0, 3, 1] = [2, 3, 10, 1]"
     "safe_indexing [1, 0, 0, 1 :: nat] [2, 0, 3, 1] = [0, 1, 1, 0]"
    by (simp_all add: safe_indexing_def)
  from label_counts_and_reordering [OF ne v p] ne v p s
  show ?thesis by blast
qed

text \<open>
  Claim C10. For every non-empty sequence of retweet counts, at least as many records are
  labelled 1 as are labelled 0; at least half of the records, rounded up, are labelled 1.
\<close>

theorem viral_majority:
  assumes "xs \<noteq> []" and "is_viral xs = Inr ls"
  shows "value_count ls 0 \<le> value_count ls 1
    \<and> (length xs + 1) div 2 \<le> value_count ls 1"
proof -
  obtain m where m: "median xs = Some m"
    using median_nonempty [OF assms(1)] by simp
  from assms(2) have ls: "ls = map (\<lambda>x. if ge_float x (median xs) then 1 else 0) xs"
    by (simp add: is_viral_Inr)
  have "value_count ls 1 = length (filter (\<lambda>x. m \<le> of_int x) xs)"
    unfolding ls value_count_map by (simp add: m ge_float_def)
  with count_ge_median [OF assms(1) m]
  have ones: "length xs - length xs div 2 \<le> value_count ls 1" by simp
  have "value_count ls 1 + value_count ls 0 = length xs"
    unfolding ls by (rule value_counts_sum)
  with ones show ?thesis by linarith
qed

theorem viral_majority_witness:
  "[3, 1, 2, 10, 2 :: int] \<noteq> [] \<and> is_viral [3, 1, 2, 10, 2] = Inr [1, 0, 1, 1, 1]
   \<and> value_count [1, 0, 1, 1, 1] 0 \<le> value_count [1, 0, 1, 1, 1] 1
   \<and> (length [3, 1, 2, 10, 2 :: int] + 1) div 2 \<le> value_count [1, 0, 1, 1, 1] 1"
proof -
  have v: "is_viral [3, 1, 2, 10, 2] = Inr [1, 0, 1, 1, 1]"
    by (simp add: is_viral_def median_def ge_float_def)
  from viral_majority [of "[3, 1, 2, 10, 2]", OF _ v] v
  show ?thesis by simp
qed

subsection \<open>The Splitter\<close>

lemma is_permutation_length:
  assumes "is_permutation p n"
  shows "length p = n"
proof -
  have "size (mset p) = size (mset [0..<n])"
    using assms by (simp add: is_permutation_def)
  then show ?thesis by simp
qed

lemma n_test_of_less:
  assumes "2 \<le> n"
  shows "n_test_of n < n"
proof -
  have "real n / 5 \<le> real_of_int (int n - 1)"
    using assms by simp
  then have "\<lceil>real n / 5\<rceil> \<le> int n - 1"
    by (simp only: ceiling_le_iff)
  then show ?thesis
    using assms by (simp add: n_test_of_def)
qed

lemma split_index_vectors:
  assumes "length p = n" and "k \<le> n"
  shows "take k p @ take (n - k) (drop k p) = p"
proof -
  have "take k p @ take (n - k) (drop k p) = take (k + (n - k)) p"
    by (simp add: take_add)
  with assms show ?thesis by simp
qed

lemma safe_indexing_append:
  "safe_indexing a (ind1 @ ind2) = safe_indexing a ind1 @ safe_indexing a ind2"
  by (simp add: safe_indexing_def)

lemma zip_safe_indexing:
  "zip (safe_indexing X ind) (safe_indexing y ind) = map (\<lambda>i. (X ! i, y ! i)) ind"
  by (induction ind) (simp_all add: safe_indexing_def)

lemma zip_as_map_nth:
  assumes "length y = length X"
  shows "map (\<lambda>i. (X ! i, y ! i)) [0..<length X] = zip X y"
  using assms by (intro nth_equalityI) simp_all

text \<open>
  Claim C7. For features and labels of equal length (at least two rows, so that neither part
  of the split is empty) and every permutation the generator can draw, the split succeeds,
  and the label found at the new position of a record is the label that was paired with the
  record's feature vector: position \<open>p\<close> of the shuffled rows, the test rows followed by
  the training rows, holds row \<open>permutation ! p\<close> of the features and row
  \<open>permutation ! p\<close> of the labels; every record has such a position, and the pairs of
  feature vector and label after the split are the pairs before it.
\<close>

theorem split_row_correspondence:
  assumes "length y = length X" and "2 \<le> length X"
    and "is_permutation permutation (length X)"
  shows "\<exists>train_data test_data train_labels test_labels.
      train_test_split permutation X y = Inr (train_data, test_data, train_labels, test_labels)
    \<and> length train_labels = length train_data
    \<and> length test_labels = length test_data
    \<and> length test_data = n_test_of (length X)
    \<and> length test_data + length train_data = length X
    \<and> (\<forall>p<length X.
          permutation ! p < length X
        \<and> (test_data @ train_data) ! p = X ! (permutation ! p)
        \<and> (test_labels @ train_labels) ! p = y ! (permutation ! p))
    \<and> (\<forall>i<length X. \<exists>p<length X. permutation ! p = i)
    \<and> mset (zip (test_data @ train_data) (test_labels @ train_labels)) = mset (zip X y)"
proof -
  let ?n = "length X"
  let ?n_test = "n_test_of ?n"
  let ?n_train = "?n - ?n_test"
  let ?ind_test = "take ?n_test permutation"
  let ?ind_train = "take ?n_train (drop ?n_test permutation)"
  have lt: "?n_test < ?n" by (rule n_test_of_less [OF assms(2)])
  have lenp: "length permutation = ?n" by (rule is_permutation_length [OF assms(3)])
  have setp: "set permutation = {0..<?n}" by (rule is_permutation_set [OF assms(3)])
  have whole: "?ind_test @ ?ind_train = permutation"
    using lenp lt by (intro split_index_vectors) simp_all
  have split: "train_test_split permutation X y =
      Inr (safe_indexing X ?ind_train, safe_indexing X ?ind_test,
           safe_indexing y ?ind_train, safe_indexing y ?ind_test)"
    using assms(1) lt by (simp add: train_test_split_def Let_def)
  have X_all: "safe_indexing X ?ind_test @ safe_indexing X ?ind_train = safe_indexing X permutation"
    by (simp only: safe_indexing_append [symmetric] whole)
  have y_all: "safe_indexing y ?ind_test @ safe_indexing y ?ind_train = safe_indexing y permutation"
    by (simp only: safe_indexing_append [symmetric] whole)
  have l1: "length (safe_indexing y ?ind_train) = length (safe_indexing X ?ind_train)"
    and l2: "length (safe_indexing y ?ind_test) = length (safe_indexing X ?ind_test)"
    by (simp_all add: safe_indexing_def)
  have l3: "length (safe_indexing X ?ind_test) = ?n_test"
    using lenp lt by (simp add: safe_indexing_def)
  have l4: "length (safe_indexing X ?ind_test) + length (safe_indexing X ?ind_train) = ?n"
    using lenp lt by (simp add: safe_indexing_def)
  have pos: "permutation ! p < ?n
        \<and> (safe_indexing X ?ind_test @ safe_indexing X ?ind_train) ! p = X ! (permutation ! p)
        \<and> (safe_indexing y ?ind_test @ safe_indexing y ?ind_train) ! p = y ! (permutation ! p)"
    if "p < ?n" for p
  proof -
    from that lenp have "permutation ! p \<in> set permutation" by simp
    with setp have "permutation ! p < ?n" by simp
    moreover from that lenp have "safe_indexing X permutation ! p = X ! (permutation ! p)"
      and "safe_indexing y permutation ! p = y ! (permutation ! p)"
      by (simp_all add: safe_indexing_def)
    ultimately show ?thesis by (simp only: X_all y_all)
  qed
  have onto: "\<exists>p<?n. permutation ! p = i" if "i < ?n" for i
  proof -
    from that setp have "i \<in> set permutation" by simp
    then show ?thesis using lenp by (auto simp: in_set_conv_nth)
  qed
  have "mset (zip (safe_indexing X permutation) (safe_indexing y permutation))
      = image_mset (\<lambda>i. (X ! i, y ! i)) (mset permutation)"
    by (simp add: zip_safe_indexing)
  also have "\<dots> = image_mset (\<lambda>i. (X ! i, y ! i)) (mset [0..<?n])"
    using assms(3) by (simp add: is_permutation_def)
  also have "\<dots> = mset (zip X y)"
    by (simp only: mset_map [symmetric] zip_as_map_nth [OF assms(1)])
  finally have pairs: "mset (zip (safe_indexing X ?ind_test @ safe_indexing X ?ind_train)
      (safe_indexing y ?ind_test @ safe_indexing y ?ind_train)) = mset (zip X y)"
    by (simp only: X_all y_all)
  from split l1 l2 l3 l4 pos onto pairs show ?thesis by blast
qed

theorem split_row_correspondence_witness:
  "length [0, 1, 0, 1, 1 :: nat] = length [[1], [2], [3], [4], [5 :: real]]
   \<and> 2 \<le> length [[1], [2], [3], [4], [5 :: real]]
   \<and> is_permutation [3, 0, 4, 1, 2] (length [[1], [2], [3], [4], [5 :: real]])
   \<and> train_test_split [3, 0, 4, 1, 2] [[1], [2], [3], [4], [5 :: real]] [0, 1, 0, 1, 1 :: nat]
       = Inr ([[1], [5], [2], [3]], [[4]], [0, 1, 1, 0], [1])"
proof -
  have p: "is_permutation [3, 0, 4, 1, 2] (length [[1], [2], [3], [4], [5 :: real]])"
    by code_simp
  from split_row_correspondence [of "[0, 1, 0, 1, 1 :: nat]" "[[1], [2], [3], [4], [5 :: real]]",
      OF _ _ p] p
  show ?thesis
    by (simp add: train_test_split_def n_test_of_def safe_indexing_def)
qed

subsection \<open>The Normalizer\<close>

lemma n_features_rect:
  assumes "X \<noteq> []" and "\<forall>r\<in>set X. length r = d"
  shows "n_features X = d"
  using assms by (cases X) (simp_all add: n_features_def)

lemma length_column: "length (column X j) = length X"
  by (simp add: column_def)

lemma mean_shift:
  assumes "xs \<noteq> []"
  shows "mean (map (\<lambda>x. x - c) xs) = mean xs - c"
proof -
  have "sum_list (map (\<lambda>x. x - c) xs) = sum_list xs - real (length xs) * c"
    by (induction xs) (simp_all add: algebra_simps)
  with assms show ?thesis
    by (simp add: mean_def field_simps)
qed

lemma mean_div: "mean (map (\<lambda>x. x / c) xs) = mean xs / c"
proof -
  have "sum_list (map (\<lambda>x. x / c) xs) = sum_list xs / c"
    by (induction xs) (simp_all add: add_divide_distrib)
  then show ?thesis by (simp add: mean_def)
qed

lemma sub_rows_nth:
  assumes "i < length X" and "j < length (X ! i)" and "j < length v"
  shows "sub_rows X v ! i ! j = X ! i ! j - v ! j"
  using assms by (simp add: sub_rows_def)

lemma column_sub_rows:
  assumes "\<forall>r\<in>set X. length r = d" and "length v = d" and "j < d"
  shows "column (sub_rows X v) j = map (\<lambda>x. x - v ! j) (column X j)"
  using assms by (simp add: column_def sub_rows_def)

lemma rect_sub_rows:
  assumes "\<forall>r\<in>set X. length r = d" and "length v = d"
  shows "\<forall>r\<in>set (sub_rows X v). length r = d"
  using assms by (auto simp: sub_rows_def)

lemma div_rows_Some:
  assumes "0 \<notin> set v"
  shows "div_rows X v = Some (map (\<lambda>r. map2 (/) r v) X)"
  using assms by (simp add: div_rows_def)

lemma div_rows_SomeD:
  assumes "div_rows X v = Some Y"
  shows "0 \<notin> set v" and "Y = map (\<lambda>r. map2 (/) r v) X"
  using assms by (simp_all add: div_rows_def split: if_splits)

lemma div_rows_nth:
  assumes "div_rows X v = Some Y"
    and "i < length X" and "j < length (X ! i)" and "j < length v"
  shows "Y ! i ! j = X ! i ! j / v ! j"
  using assms(2-4) by (simp add: div_rows_SomeD(2) [OF assms(1)])

lemma column_div_rows:
  assumes "div_rows X v = Some Y"
    and "\<forall>r\<in>set X. length r = d" and "length v = d" and "j < d"
  shows "column Y j = map (\<lambda>x. x / v ! j) (column X j)"
  using assms(2-4) by (simp add: div_rows_SomeD(2) [OF assms(1)] column_def)

lemma rect_div_rows:
  assumes "div_rows X v = Some Y"
    and "\<forall>r\<in>set X. length r = d" and "length v = d"
  shows "\<forall>r\<in>set Y. length r = d"
  using assms(2,3) by (auto simp: div_rows_SomeD(2) [OF assms(1)])

lemma handle_zeros_in_scale_nonzero: "0 \<notin> set (handle_zeros_in_scale s)"
  by (auto simp: handle_zeros_in_scale_def)

lemma allclose0_zeros:
  assumes "\<forall>m\<in>set v. m = 0"
  shows "allclose0 v"
  using assms by (auto simp: allclose0_def list_all_iff)

lemma nanmean0_centred:
  assumes "X \<noteq> []" and "\<forall>r\<in>set X. length r = d"
  shows "\<forall>m\<in>set (nanmean0 (sub_rows X (nanmean0 X))). m = 0"
proof -
  have nf: "n_features X = d" by (rule n_features_rect [OF assms])
  have len: "length (nanmean0 X) = d" by (simp add: nanmean0_def nf)
  have ne: "sub_rows X (nanmean0 X) \<noteq> []" using assms(1) by (simp add: sub_rows_def)
  have nf': "n_features (sub_rows X (nanmean0 X)) = d"
    by (rule n_features_rect [OF ne rect_sub_rows [OF assms(2) len]])
  have "mean (column (sub_rows X (nanmean0 X)) j) = 0" if "j < d" for j
  proof -
    have "column X j \<noteq> []" using assms(1) by (simp add: column_def)
    then have "mean (map (\<lambda>x. x - nanmean0 X ! j) (column X j)) = mean (column X j) - nanmean0 X ! j"
      by (rule mean_shift)
    moreover have "nanmean0 X ! j = mean (column X j)"
      using that by (simp add: nanmean0_def nf)
    ultimately show ?thesis
      by (simp add: column_sub_rows [OF assms(2) len that])
  qed
  moreover have "nanmean0 (sub_rows X (nanmean0 X))
      = map (\<lambda>j. mean (column (sub_rows X (nanmean0 X)) j)) [0..<d]"
    by (simp add: nanmean0_def [of "sub_rows X (nanmean0 X)"] nf')
  ultimately show ?thesis by auto
qed

lemma nanmean0_div_rows_zero:
  assumes "div_rows X v = Some Y"
    and "X \<noteq> []" and "\<forall>r\<in>set X. length r = d" and "length v = d"
    and "\<forall>m\<in>set (nanmean0 X). m = 0"
  shows "\<forall>m\<in>set (nanmean0 Y). m = 0"
proof -
  have nf: "n_features X = d" by (rule n_features_rect [OF assms(2,3)])
  have ne: "Y \<noteq> []" using assms(2) by (simp add: div_rows_SomeD(2) [OF assms(1)])
  have nf': "n_features Y = d"
    by (rule n_features_rect [OF ne rect_div_rows [OF assms(1,3,4)]])
  have "mean (column Y j) = 0" if "j < d" for j
  proof -
    from assms(5) that have "mean (column X j) = 0"
      by (simp add: nanmean0_def nf)
    then show ?thesis
      by (simp add: column_div_rows [OF assms(1,3,4) that] mean_div)
  qed
  moreover have "nanmean0 Y = map (\<lambda>j. mean (column Y j)) [0..<d]"
    by (simp add: nanmean0_def [of Y] nf')
  ultimately show ?thesis by auto
qed

text \<open>
  The guard of the library leaves no zero to divide by: the division always gives a matrix,
  and the two later centring steps change nothing.
\<close>

lemma scale_steps:
  assumes "X \<noteq> []" and "\<forall>r\<in>set X. length r = d"
  shows "\<exists>Y. div_rows (sub_rows X (nanmean0 X)) (handle_zeros_in_scale (nanstd0 X)) = Some Y
    \<and> scale X = Inr Y"
proof -
  let ?c = "sub_rows X (nanmean0 X)" and ?s = "handle_zeros_in_scale (nanstd0 X)"
  obtain Y where Y: "div_rows ?c ?s = Some Y"
    using div_rows_Some [OF handle_zeros_in_scale_nonzero] by blast
  have nf: "n_features X = d" by (rule n_features_rect [OF assms])
  have len: "length (nanmean0 X) = d" by (simp add: nanmean0_def nf)
  have lens: "length ?s = d" by (simp add: handle_zeros_in_scale_def nanstd0_def nf)
  have ne: "?c \<noteq> []" using assms(1) by (simp add: sub_rows_def)
  have rect: "\<forall>r\<in>set ?c. length r = d" by (rule rect_sub_rows [OF assms(2) len])
  have z1: "\<forall>m\<in>set (nanmean0 ?c). m = 0" by (rule nanmean0_centred [OF assms])
  have c1: "allclose0 (nanmean0 ?c)" by (rule allclose0_zeros [OF z1])
  have c2: "allclose0 (nanmean0 Y)"
    by (rule allclose0_zeros [OF nanmean0_div_rows_zero [OF Y ne rect lens z1]])
  have "scale X = Inr Y"
    using assms(1) c1 c2 Y by (simp add: scale_def Let_def)
  with Y show ?thesis by blast
qed

lemma scale_never_NonFinite: "scale X \<noteq> Inl NonFinite"
proof (cases "X = []")
  case True
  then show ?thesis by (simp add: scale_def)
next
  case False
  then show ?thesis
    by (simp add: scale_def Let_def div_rows_Some [OF handle_zeros_in_scale_nonzero])
qed

lemma scale_entries:
  assumes "X \<noteq> []" and "\<forall>r\<in>set X. length r = d"
  shows "\<exists>Y. scale X = Inr Y
    \<and> div_rows (sub_rows X (nanmean0 X)) (handle_zeros_in_scale (nanstd0 X)) = Some Y
    \<and> length Y = length X \<and> (\<forall>r\<in>set Y. length r = d)
    \<and> (\<forall>j<d. handle_zeros_in_scale (nanstd0 X) ! j
                 = (if std (column X j) = 0 then 1 else std (column X j)))
    \<and> (\<forall>i<length X. \<forall>j<d.
          Y ! i ! j = (X ! i ! j - mean (column X j)) / handle_zeros_in_scale (nanstd0 X) ! j)"
proof -
  let ?c = "sub_rows X (nanmean0 X)" and ?s = "handle_zeros_in_scale (nanstd0 X)"
  from scale_steps [OF assms] obtain Y where
    Y: "div_rows ?c ?s = Some Y" and sc: "scale X = Inr Y" by blast
  have nf: "n_features X = d" by (rule n_features_rect [OF assms])
  have len: "length (nanmean0 X) = d" by (simp add: nanmean0_def nf)
  have lens: "length ?s = d" by (simp add: handle_zeros_in_scale_def nanstd0_def nf)
  have lenY: "length Y = length X"
    by (simp add: div_rows_SomeD(2) [OF Y] sub_rows_def)
  have rectY: "\<forall>r\<in>set Y. length r = d"
    by (rule rect_div_rows [OF Y rect_sub_rows [OF assms(2) len] lens])
  have divisor: "?s ! j = (if std (column X j) = 0 then 1 else std (column X j))"
    if "j < d" for j
    using that by (simp add: handle_zeros_in_scale_def nanstd0_def nf)
  have "Y ! i ! j = (X ! i ! j - mean (column X j)) / ?s ! j"
    if "i < length X" and "j < d" for i j
  proof -
    from that assms(2) have lr: "length (X ! i) = d" by simp
    have ic: "i < length ?c" using that(1) by (simp add: sub_rows_def)
    have lc: "length (?c ! i) = d"
      using rect_sub_rows [OF assms(2) len] ic by simp
    have "Y ! i ! j = ?c ! i ! j / ?s ! j"
      using ic lc lens that(2) by (simp add: div_rows_nth [OF Y])
    also have "?c ! i ! j = X ! i ! j - nanmean0 X ! j"
      using that lr len by (simp add: sub_rows_nth)
    also have "nanmean0 X ! j = mean (column X j)"
      using that(2) by (simp add: nanmean0_def nf)
    finally show ?thesis .
  qed
  with sc Y lenY rectY divisor show ?thesis by blast
qed

lemma sum_list_map_nth: "sum_list (map f xs) = (\<Sum>i<length xs. f (xs ! i))"
proof -
  have "sum_list (map f xs) = (\<Sum>i = 0..<length (map f xs). map f xs ! i)"
    by (rule sum_list_sum_nth)
  also have "\<dots> = (\<Sum>i<length xs. f (xs ! i))"
    by (simp add: atLeast0LessThan)
  finally show ?thesis .
qed

lemma mean_column: "mean (column X j) = column_mean X j"
  by (simp add: mean_def column_def column_mean_def sum_list_map_nth comp_def)

lemma std_column: "std (column X j) = population_std X j"
proof -
  have "sum_list (map (\<lambda>x. (x - column_mean X j)\<^sup>2) (column X j))
      = (\<Sum>i<length X. (X ! i ! j - column_mean X j)\<^sup>2)"
    by (simp add: column_def sum_list_map_nth comp_def)
  then show ?thesis
    by (simp add: std_def population_std_def mean_column mean_def [of "map _ _"] length_column)
qed

lemma std_zero_constant:
  assumes "std c = 0" and "x \<in> set c"
  shows "x = mean c"
proof -
  let ?sq = "map (\<lambda>x. (x - mean c)\<^sup>2) c"
  from assms(2) have ne: "c \<noteq> []" by auto
  from assms(1) have "mean ?sq = 0" by (simp add: std_def)
  with ne have sum0: "sum_list ?sq = 0" by (simp add: mean_def)
  have nonneg: "\<forall>y\<in>set ?sq. 0 \<le> y" by auto
  have "\<forall>y\<in>set ?sq. y = 0"
    using sum_list_nonneg_eq_0_iff [of ?sq] nonneg sum0 by blast
  with assms(2) show ?thesis by auto
qed

lemma rect_data: "\<forall>r\<in>set (data all_tweets). length r = 3"
  by (auto simp: data_def features_def)




text \<open>
  Claim C5, as the specification states it: if a feature column has \<open>\<sigma> = 0\<close>, the
  Normalizer fails with a DegenerateColumn error instead of returning a matrix. On the matrix
  below the middle column is constant, and \<^verbatim>\<open>scale\<close> returns a matrix.
\<close>

theorem normalizer_constant_column_counterexample:
  "population_std [[1, 5, 2], [3, 5, 6]] 1 = 0
   \<and> scale [[1, 5, 2], [3, 5, 6]] = Inr [[-1, 0, -1], [1, 0, 1]]"
proof
  show "population_std [[1, 5, 2], [3, 5, 6]] 1 = 0"
    by (simp add: population_std_def column_mean_def lessThan_Suc eval_nat_numeral)
  show "scale [[1, 5, 2], [3, 5, 6]] = Inr [[-1, 0, -1], [1, 0, 1]]"
    by (simp add: scale_def nanmean0_def nanstd0_def n_features_def column_def mean_def std_def
        sub_rows_def div_rows_def allclose0_def handle_zeros_in_scale_def upt_conv_Cons)
qed

text \<open>
  Claim C5, amended. If a column of the feature matrix of \<open>N \<ge> 1\<close> records has \<open>\<sigma> = 0\<close>,
  which makes it a constant column, the Normalizer does not fail: the divisor it uses for that
  column is 1 instead of \<open>\<sigma>\<close> (no divisor is 0, and the division gives the returned
  matrix), and every entry of the column in the returned matrix is 0. The integers of the
  features are taken within the range that \<^verbatim>\<open>float64\<close> holds and sums without rounding.
\<close>

theorem normalizer_constant_column:
  assumes "all_tweets \<noteq> []"
    and "\<forall>t\<in>set all_tweets. exact_features t"
    and "j < 3"
    and "\<forall>i<length all_tweets. \<bar>data all_tweets ! i ! j\<bar> * real (length all_tweets) \<le> 2 ^ 53"
    and "population_std (data all_tweets) j = 0"
  shows "\<exists>Y divisors.
      scale (data all_tweets) = Inr Y
    \<and> length Y = length all_tweets
    \<and> divisors = handle_zeros_in_scale (nanstd0 (data all_tweets))
    \<and> div_rows (sub_rows (data all_tweets) (nanmean0 (data all_tweets))) divisors = Some Y
    \<and> 0 \<notin> set divisors
    \<and> divisors ! j = 1
    \<and> (\<forall>i<length all_tweets.
          data all_tweets ! i ! j = column_mean (data all_tweets) j
        \<and> Y ! i ! j = (data all_tweets ! i ! j - column_mean (data all_tweets) j) / divisors ! j
        \<and> Y ! i ! j = 0)"
proof -
  let ?X = "data all_tweets"
  let ?d = "handle_zeros_in_scale (nanstd0 ?X)"
  from assms(1) have ne: "?X \<noteq> []" by (simp add: data_def)
  have lenX: "length ?X = length all_tweets" by (simp add: data_def)
  from scale_entries [OF ne rect_data] obtain Y where
    sc: "scale ?X = Inr Y" and lenY: "length Y = length ?X"
    and dr: "div_rows (sub_rows ?X (nanmean0 ?X)) ?d = Some Y"
    and dv: "\<forall>j<3. ?d ! j = (if std (column ?X j) = 0 then 1 else std (column ?X j))"
    and en: "\<forall>i<length ?X. \<forall>j<3. Y ! i ! j = (?X ! i ! j - mean (column ?X j)) / ?d ! j"
    by blast
  have z: "std (column ?X j) = 0" using assms(5) by (simp add: std_column)
  from dv assms(3) z have one: "?d ! j = 1" by simp
  have each: "?X ! i ! j = column_mean ?X j
        \<and> Y ! i ! j = (?X ! i ! j - column_mean ?X j) / ?d ! j
        \<and> Y ! i ! j = 0" if "i < length all_tweets" for i
  proof -
    from that have "?X ! i ! j \<in> set (column ?X j)"
      by (auto simp: column_def lenX)
    from std_zero_constant [OF z this] have c: "?X ! i ! j = column_mean ?X j"
      by (simp add: mean_column)
    from en that assms(3) have "Y ! i ! j = (?X ! i ! j - column_mean ?X j) / ?d ! j"
      by (simp add: lenX mean_column)
    with c one show ?thesis by simp
  qed
  from sc lenY lenX dr one each handle_zeros_in_scale_nonzero [of "nanstd0 ?X"]
  show ?thesis by (intro exI [of _ Y] exI [of _ ?d]) simp
qed

theorem normalizer_constant_column_witness:
  "[tweet_with 1 5 2, tweet_with 3 5 6] \<noteq> []
   \<and> list_all exact_features [tweet_with 1 5 2, tweet_with 3 5 6]
   \<and> data [tweet_with 1 5 2, tweet_with 3 5 6] = [[1, 5, 2], [3, 5, 6]]
   \<and> (1 :: nat) < 3
   \<and> \<bar>5 :: real\<bar> * real (length [tweet_with 1 5 2, tweet_with 3 5 6]) \<le> 2 ^ 53
   \<and> population_std [[1, 5, 2], [3, 5, 6]] 1 = 0
   \<and> handle_zeros_in_scale (nanstd0 [[1, 5, 2], [3, 5, 6]]) = [1, 1, 2]
   \<and> (\<exists>Y. scale [[1, 5, 2], [3, 5, 6]] = Inr Y
        \<and> div_rows (sub_rows [[1, 5, 2], [3, 5, 6]] (nanmean0 [[1, 5, 2], [3, 5, 6]])) [1, 1, 2]
            = Some Y
        \<and> Y ! 0 ! 1 = 0 \<and> Y ! 1 ! 1 = 0)"
proof -
  let ?T = "[tweet_with 1 5 2, tweet_with 3 5 6]"
  let ?X = "[[1, 5, 2], [3, 5, 6 :: real]]"
  have d: "data ?T = ?X" by (simp add: data_def features_def tweet_with_def)
  have e: "\<forall>t\<in>set ?T. exact_features t" by (simp add: exact_features_def tweet_with_def)
  have "\<forall>i<length ?T. \<bar>?X ! i ! 1\<bar> * real (length ?T) \<le> 2 ^ 53"
    by (simp add: less_Suc_eq)
  then have b: "\<forall>i<length ?T. \<bar>data ?T ! i ! 1\<bar> * real (length ?T) \<le> 2 ^ 53"
    by (simp only: d)
  have s: "population_std ?X 1 = 0"
    by (simp add: population_std_def column_mean_def lessThan_Suc eval_nat_numeral)
  have s': "population_std (data ?T) 1 = 0" by (simp only: d s)
  have dvs: "handle_zeros_in_scale (nanstd0 ?X) = [1, 1, 2]"
    by (simp add: nanstd0_def n_features_def column_def mean_def std_def
        handle_zeros_in_scale_def upt_conv_Cons)
  from normalizer_constant_column [OF _ e _ b s']
  obtain Y where Y1: "scale (data ?T) = Inr Y"
    and Y2: "div_rows (sub_rows (data ?T) (nanmean0 (data ?T)))
           (handle_zeros_in_scale (nanstd0 (data ?T))) = Some Y"
    and Y3: "\<forall>i<length ?T. Y ! i ! 1 = 0"
    by auto
  from Y1 [unfolded d] Y2 [unfolded d dvs] Y3
  have "scale ?X = Inr Y
        \<and> div_rows (sub_rows ?X (nanmean0 ?X)) [1, 1, 2] = Some Y
        \<and> Y ! 0 ! 1 = 0 \<and> Y ! 1 ! 1 = 0"
    by simp
  with d e s dvs show ?thesis
    by (auto simp: list_all_iff)
qed

subsection \<open>The classifier and the sweep\<close>

lemma fit_ok:
  assumes "X \<noteq> []" and "length y = length X" and "0 < k"
  shows "fit (KNeighborsClassifier k) X y = Inr \<lparr>n_neighbors = k, fit_X = X, fit_y = y\<rparr>"
  using assms by (simp add: fit_def KNeighborsClassifier_def)

lemma count_agreements:
  assumes "length y = length X"
  shows "length (filter (\<lambda>(t, p). t = p) (zip y (map f X)))
       = length (filter (\<lambda>j. f (X ! j) = y ! j) [0..<length X])"
proof -
  have "zip y (map f X) = map (\<lambda>j. (y ! j, f (X ! j))) [0..<length X]"
    using assms by (intro nth_equalityI) simp_all
  then have "filter (\<lambda>(t, p). t = p) (zip y (map f X))
      = map (\<lambda>j. (y ! j, f (X ! j))) (filter (\<lambda>j. y ! j = f (X ! j)) [0..<length X])"
    by (simp add: filter_map comp_def)
  then have "length (filter (\<lambda>(t, p). t = p) (zip y (map f X)))
      = length (filter (\<lambda>j. y ! j = f (X ! j)) [0..<length X])"
    by simp
  also have "(\<lambda>j. y ! j = f (X ! j)) = (\<lambda>j. f (X ! j) = y ! j)"
    by auto
  finally show ?thesis .
qed

lemma evaluate_k_ok:
  assumes "train_data \<noteq> []" and "length train_labels = length train_data"
    and "test_data \<noteq> []" and "length test_labels = length test_data"
    and "0 < k" and "k \<le> length train_data"
  shows "evaluate_k kneighbors train_data train_labels test_data test_labels k
       = Inr (knn_accuracy kneighbors train_data train_labels test_data test_labels k)"
proof -
  let ?f = "knn_label kneighbors k train_data train_labels"
  have "predict kneighbors \<lparr>n_neighbors = k, fit_X = train_data, fit_y = train_labels\<rparr> test_data
      = Inr (map ?f test_data)"
    using assms(3,6) by (simp add: predict_def knn_label_def)
  moreover have "accuracy_score test_labels (map ?f test_data)
      = Inr (knn_accuracy kneighbors train_data train_labels test_data test_labels k)"
    using assms(4) count_agreements [OF assms(4), of ?f]
    by (simp add: accuracy_score_def knn_accuracy_def)
  ultimately show ?thesis
    by (simp add: evaluate_k_def fit_ok [OF assms(1,2,5)] score_def)
qed

lemma evaluate_k_InvalidK:
  assumes "train_data \<noteq> []" and "length train_labels = length train_data"
    and "test_data \<noteq> []" and "length train_data < k"
  shows "evaluate_k kneighbors train_data train_labels test_data test_labels k = Inl InvalidK"
proof -
  from assms(4) have "0 < k" by simp
  from fit_ok [OF assms(1,2) this] assms(3,4) show ?thesis
    by (simp add: evaluate_k_def score_def predict_def)
qed

lemma sweep_loop_step:
  "sweep_loop kneighbors train_data train_labels test_data test_labels (k # ks) scores =
     (case evaluate_k kneighbors train_data train_labels test_data test_labels k of
        Inl e \<Rightarrow> Inl e
      | Inr s \<Rightarrow> sweep_loop kneighbors train_data train_labels test_data test_labels ks (scores @ [s]))"
  by (simp add: evaluate_k_def split: sum.splits)

lemma sweep_loop_all_ok:
  assumes "\<forall>k\<in>set ks. evaluate_k kneighbors train_data train_labels test_data test_labels k = Inr (f k)"
  shows "sweep_loop kneighbors train_data train_labels test_data test_labels ks scores
       = Inr (scores @ map f ks)"
  using assms
proof (induction ks arbitrary: scores)
  case Nil
  then show ?case by simp
next
  case (Cons k ks)
  then show ?case by (simp only: sweep_loop_step) simp
qed

lemma sweep_loop_Inr:
  assumes "sweep_loop kneighbors train_data train_labels test_data test_labels ks scores0 = Inr scores"
  shows "length scores = length scores0 + length ks
    \<and> (\<forall>i<length ks. evaluate_k kneighbors train_data train_labels test_data test_labels (ks ! i)
          = Inr (scores ! (length scores0 + i)))
    \<and> (\<forall>i<length scores0. scores ! i = scores0 ! i)"
  using assms
proof (induction ks arbitrary: scores0)
  case Nil
  then show ?case by simp
next
  case (Cons k ks)
  from Cons.prems obtain s where
    s: "evaluate_k kneighbors train_data train_labels test_data test_labels k = Inr s"
    and rest: "sweep_loop kneighbors train_data train_labels test_data test_labels ks (scores0 @ [s]) = Inr scores"
    by (simp only: sweep_loop_step) (auto split: sum.splits)
  from Cons.IH [OF rest] have
    len: "length scores = length (scores0 @ [s]) + length ks"
    and ev: "\<forall>i<length ks. evaluate_k kneighbors train_data train_labels test_data test_labels (ks ! i)
          = Inr (scores ! (length (scores0 @ [s]) + i))"
    and keep: "\<forall>i<length (scores0 @ [s]). scores ! i = (scores0 @ [s]) ! i"
    by blast+
  from keep have here: "scores ! length scores0 = s"
    by (metis length_append_singleton lessI nth_append_length)
  have "evaluate_k kneighbors train_data train_labels test_data test_labels ((k # ks) ! i)
          = Inr (scores ! (length scores0 + i))" if "i < length (k # ks)" for i
  proof (cases i)
    case 0
    with s here show ?thesis by simp
  next
    case (Suc i')
    with that ev show ?thesis by simp
  qed
  moreover have "scores ! i = scores0 ! i" if "i < length scores0" for i
    using keep that by (simp add: nth_append)
  ultimately show ?case using len by simp
qed

lemma sweep_loop_InvalidK:
  assumes "\<forall>k\<in>set ks. (\<exists>s. evaluate_k kneighbors train_data train_labels test_data test_labels k = Inr s)
             \<or> evaluate_k kneighbors train_data train_labels test_data test_labels k = Inl e"
    and "\<exists>k\<in>set ks. evaluate_k kneighbors train_data train_labels test_data test_labels k = Inl e"
  shows "sweep_loop kneighbors train_data train_labels test_data test_labels ks scores = Inl e"
  using assms
proof (induction ks arbitrary: scores)
  case Nil
  then show ?case by simp
next
  case (Cons k ks)
  show ?case
  proof (cases "evaluate_k kneighbors train_data train_labels test_data test_labels k")
    case (Inl e')
    with Cons.prems(1) have "e' = e" by auto
    with Inl show ?thesis by (simp only: sweep_loop_step) simp
  next
    case (Inr s)
    with Cons.prems(2) have "\<exists>k\<in>set ks. evaluate_k kneighbors train_data train_labels test_data test_labels k = Inl e"
      by auto
    moreover from Cons.prems(1) have "\<forall>k\<in>set ks. (\<exists>s. evaluate_k kneighbors train_data train_labels test_data test_labels k = Inr s)
             \<or> evaluate_k kneighbors train_data train_labels test_data test_labels k = Inl e"
      by simp
    ultimately have "sweep_loop kneighbors train_data train_labels test_data test_labels ks (scores @ [s]) = Inl e"
      by (rule Cons.IH [rotated])
    with Inr show ?thesis by (simp only: sweep_loop_step) simp
  qed
qed

lemma model_score_evaluate_k:
  "model_score kneighbors train_data train_labels test_data test_labels
   = evaluate_k kneighbors train_data train_labels test_data test_labels 5"
  by (simp add: model_score_def evaluate_k_def)


lemma zip_map_same: "zip xs (map f xs) = map (\<lambda>x. (x, f x)) xs"
  by (induction xs) simp_all

lemma fold_max_ge:
  fixes a :: nat
  shows "a \<le> fold max xs a \<and> (\<forall>x\<in>set xs. x \<le> fold max xs a)"
proof (induction xs arbitrary: a)
  case Nil
  then show ?case by simp
next
  case (Cons x xs)
  from Cons.IH [of "max x a"] show ?case by auto
qed

lemma fold_max_in:
  fixes a :: nat
  shows "fold max xs a \<in> insert a (set xs)"
proof (induction xs arbitrary: a)
  case Nil
  then show ?case by simp
next
  case (Cons x xs)
  from Cons.IH [of "max x a"] show ?case by (auto simp: max_def split: if_splits)
qed

lemma mode_majority_label:
  assumes "ls \<noteq> []"
  shows "majority_label ls (mode ls)"
proof -
  let ?vs = "sort (remdups ls)"
  let ?best = "fold max (map (count_list ls) ?vs) 0"
  let ?top = "filter (\<lambda>v. count_list ls v = ?best) ?vs"
  have vs: "set ?vs = set ls" by simp
  have upper: "count_list ls l' \<le> ?best" if "l' \<in> set ls" for l'
    using fold_max_ge [of 0 "map (count_list ls) ?vs"] that by auto
  from assms obtain x where x: "x \<in> set ls" by (cases ls) auto
  then have "count_list ls x \<noteq> 0" by (simp add: count_list_0_iff)
  then have "0 < count_list ls x" by simp
  with upper [OF x] have pos: "0 < ?best" by linarith
  have "?best \<in> insert 0 (set (map (count_list ls) ?vs))"
    by (rule fold_max_in)
  with pos obtain v where v: "v \<in> set ls" "count_list ls v = ?best"
    by auto
  then have "v \<in> set ?top" by simp
  then obtain l rest where top: "?top = l # rest"
    by (cases ?top) auto
  then have m: "mode ls = l" by (simp add: mode_def Let_def)
  from top have "l \<in> set ?top" by simp
  then have l: "l \<in> set ls" "count_list ls l = ?best" by simp_all
  have "sorted ?top" by (rule sorted_wrt_filter) simp
  with top have least: "\<forall>y\<in>set rest. l \<le> y" by simp
  have tie: "l \<le> l'" if "l' \<in> set ls" and "count_list ls l' = count_list ls l" for l'
  proof -
    from that l(2) have "l' \<in> set ?top" by simp
    with top least show ?thesis by auto
  qed
  from l upper tie show ?thesis
    by (auto simp: majority_label_def m list_all_iff)
qed

lemma euclidean_three:
  assumes "length a = 3" and "length b = 3"
  shows "euclidean a b = euclidean3 a b"
proof -
  from assms(1) obtain a0 a1 a2 where a: "a = [a0, a1, a2]"
    by (cases a; cases "tl a"; cases "tl (tl a)") auto
  from assms(2) obtain b0 b1 b2 where b: "b = [b0, b1, b2]"
    by (cases b; cases "tl b"; cases "tl (tl b)") auto
  show ?thesis
    by (simp add: a b euclidean_def sq_dist_def euclidean3_def)
qed

lemma nearest_search_k_nearest:
  assumes "k \<le> length X" and "\<forall>r\<in>set X. length r = 3" and "length q = 3"
  shows "k_nearest_rows X q k (nearest_search tie k X q)"
proof -
  let ?f = "\<lambda>i. euclidean (X ! i) q"
  let ?s = "sort_key ?f (sort_key (tie k q) [0..<length X])"
  have sets: "set ?s = {0..<length X}" by simp
  have len: "length (take k ?s) = k" using assms(1) by simp
  have dist: "distinct (take k ?s)" by simp
  have sub: "\<forall>i\<in>set (take k ?s). i < length X"
  proof
    fix i assume "i \<in> set (take k ?s)"
    then have "i \<in> set ?s" by (rule in_set_takeD)
    then show "i < length X" by simp
  qed
  have "sorted (map ?f (take k ?s) @ map ?f (drop k ?s))"
    by (simp only: map_append [symmetric] append_take_drop_id sorted_sort_key)
  then have "\<forall>x\<in>set (map ?f (take k ?s)). \<forall>y\<in>set (map ?f (drop k ?s)). x \<le> y"
    unfolding sorted_append by blast
  then have between: "\<forall>a\<in>set (take k ?s). \<forall>b\<in>set (drop k ?s). ?f a \<le> ?f b"
    by simp
  have three: "euclidean (X ! i) q = euclidean3 (X ! i) q" if "i < length X" for i
    using that assms(2,3) by (intro euclidean_three) simp_all
  have near: "j \<in> set (take k ?s) \<or> euclidean3 (X ! i) q \<le> euclidean3 (X ! j) q"
    if "i \<in> set (take k ?s)" and "j < length X" for i j
  proof (cases "j \<in> set (take k ?s)")
    case True
    then show ?thesis by simp
  next
    case False
    from that(2) have "j \<in> set (take k ?s @ drop k ?s)"
      by (simp only: append_take_drop_id) simp
    then have "j \<in> set (take k ?s) \<union> set (drop k ?s)"
      by (simp only: set_append)
    with False have "j \<in> set (drop k ?s)" by blast
    with between that(1) have "?f i \<le> ?f j" by blast
    moreover from that(1) sub have "i < length X" by blast
    ultimately show ?thesis using that(2) by (simp add: three)
  qed
  from len dist sub near show ?thesis
    by (simp add: k_nearest_rows_def nearest_search_def list_all_iff)
qed

text \<open>
  Conversely, whichever \<open>k\<close> nearest rows a search returns, they are the rows of
  \<open>nearest_search\<close> for some order of the equidistant rows.
\<close>

lemma nearest_search_any_choice:
  assumes "length ind = k" and "distinct ind" and "\<forall>i\<in>set ind. i < length X"
    and "\<forall>i\<in>set ind. \<forall>j<length X. j \<notin> set ind \<longrightarrow> euclidean (X ! i) q \<le> euclidean (X ! j) q"
  shows "\<exists>tie. set (nearest_search tie k X q) = set ind"
proof -
  let ?f = "\<lambda>i. euclidean (X ! i) q"
  define t :: "nat \<Rightarrow> nat" where "t i = (if i \<in> set ind then 0 else 1)" for i
  let ?inner = "sort_key t [0..<length X]"
  let ?s = "sort_key ?f ?inner"
  have sets: "set ?s = {0..<length X}" by simp
  have dists: "distinct ?s" by simp
  from assms(1,3) assms(2) have "card (set ind) \<le> card {0..<length X}"
    by (intro card_mono) auto
  with assms(1,2) have k: "k \<le> length X" by (simp add: distinct_card)
  have lent: "length (take k ?s) = k" using k by simp
  have sub: "set (take k ?s) \<subseteq> set ind"
  proof (rule ccontr)
    assume "\<not> set (take k ?s) \<subseteq> set ind"
    then obtain a where a: "a \<in> set (take k ?s)" "a \<notin> set ind" by blast
    have "card (set (take k ?s)) = k" using lent dists by (simp add: distinct_card)
    moreover have "card (set ind) = k" using assms(1,2) by (simp add: distinct_card)
    ultimately have "\<not> set ind \<subseteq> set (take k ?s)"
      using a by (metis card_subset_eq List.finite_set)
    then obtain b where b: "b \<in> set ind" "b \<notin> set (take k ?s)" by blast
    from b(1) assms(3) have "b \<in> set (take k ?s @ drop k ?s)"
      by (simp only: append_take_drop_id) simp
    then have "b \<in> set (take k ?s) \<union> set (drop k ?s)" by (simp only: set_append)
    with b(2) have bd: "b \<in> set (drop k ?s)" by blast
    from a(1) have al: "a < length X" using sets in_set_takeD by fastforce
    have "sorted (map ?f (take k ?s) @ map ?f (drop k ?s))"
      by (simp only: map_append [symmetric] append_take_drop_id sorted_sort_key)
    then have "\<forall>x\<in>set (map ?f (take k ?s)). \<forall>y\<in>set (map ?f (drop k ?s)). x \<le> y"
      unfolding sorted_append by blast
    with a(1) bd have "?f a \<le> ?f b" by simp
    moreover from assms(4) b(1) al a(2) have "?f b \<le> ?f a" by blast
    ultimately have eq: "?f a = ?f b" by simp
    let ?P = "\<lambda>x. ?f x = ?f b"
    have "filter ?P ?s = filter ?P ?inner"
      by (rule sort_key_stable)
    then have "filter ?P (take k ?s) @ filter ?P (drop k ?s) = filter ?P ?inner"
      by (simp only: filter_append [symmetric] append_take_drop_id)
    moreover have "sorted (map t (filter ?P ?inner))"
      by (simp only: filter_map [symmetric] sorted_filter comp_def sorted_sort_key
          sorted_filter [of t "sort_key t [0..<length X]" ?P])
    ultimately have "sorted (map t (filter ?P (take k ?s)) @ map t (filter ?P (drop k ?s)))"
      by (simp only: map_append [symmetric])
    then have "\<forall>x\<in>set (map t (filter ?P (take k ?s))). \<forall>y\<in>set (map t (filter ?P (drop k ?s))). x \<le> y"
      unfolding sorted_append by blast
    moreover from a(1) eq have "a \<in> set (filter ?P (take k ?s))" by simp
    moreover from bd have "b \<in> set (filter ?P (drop k ?s))" by simp
    ultimately have "t a \<le> t b" by simp
    with a(2) b(1) show False by (simp add: t_def)
  qed
  have "card (set (take k ?s)) = card (set ind)"
    using lent dists assms(1,2) by (simp add: distinct_card)
  with sub have "set (take k ?s) = set ind"
    by (intro card_subset_eq) simp_all
  then have "set (nearest_search (\<lambda>k q. t) k X q) = set ind"
    by (simp only: nearest_search_def)
  then show ?thesis by blast
qed

lemma sweep_all_valid:
  assumes "length train_labels = length train_data" and "199 \<le> length train_data"
    and "test_data \<noteq> []" and "length test_labels = length test_data"
  shows "sweep kneighbors train_data train_labels test_data test_labels
    = Inr (map (knn_accuracy kneighbors train_data train_labels test_data test_labels) [1..<200])"
proof -
  let ?acc = "knn_accuracy kneighbors train_data train_labels test_data test_labels"
  from assms(2) have ne: "train_data \<noteq> []" by auto
  have "\<forall>k\<in>set [1..<200].
      evaluate_k kneighbors train_data train_labels test_data test_labels k = Inr (?acc k)"
    using assms(2) by (auto intro!: evaluate_k_ok [OF ne assms(1,3,4)])
  then show ?thesis
    by (simp only: sweep_def sweep_loop_all_ok append_Nil)
qed

lemma sweep_InvalidK:
  assumes "train_data \<noteq> []" and "length train_labels = length train_data"
    and "test_data \<noteq> []" and "length test_labels = length test_data"
    and "length train_data < 199"
  shows "sweep kneighbors train_data train_labels test_data test_labels = Inl InvalidK"
proof -
  let ?ev = "evaluate_k kneighbors train_data train_labels test_data test_labels"
  have each: "(\<exists>s. ?ev k = Inr s) \<or> ?ev k = Inl InvalidK" if "k \<in> set [1..<200]" for k
  proof (cases "k \<le> length train_data")
    case True
    with that show ?thesis by (simp add: evaluate_k_ok [OF assms(1-4)])
  next
    case False
    then show ?thesis by (simp add: evaluate_k_InvalidK [OF assms(1-3)])
  qed
  have "?ev 199 = Inl InvalidK"
    using assms(5) by (simp add: evaluate_k_InvalidK [OF assms(1-3)])
  moreover have "(199 :: nat) \<in> set [1..<200]" by simp
  ultimately have "\<exists>k\<in>set [1..<200]. ?ev k = Inl InvalidK" by blast
  with each show ?thesis
    by (simp only: sweep_def) (rule sweep_loop_InvalidK, blast+)
qed

text \<open>
  Claim C3. On a train/test partition of rows of 3 features whose training part has at least
  199 rows (the notebook's has 8879), the sweep evaluates every \<open>k\<close> from 1 to 199 and
  returns one accuracy per \<open>k\<close>, in increasing order of \<open>k\<close>; plotted against
  \<open>range(1, 200)\<close> they are the pairs \<open>(k, accuracy)\<close>. The accuracy for \<open>k\<close> is that of a
  \<open>k\<close>-nearest-neighbour classifier fitted on the training part: each test row is given the
  majority label of \<open>k\<close> training rows nearest to it under the Euclidean distance on the 3
  features, and the accuracy is the number of test rows given their own label, divided by
  the number of test rows. This holds for every order in which the library's search may take
  equidistant rows.
\<close>

theorem sweep_output:
  assumes "length train_labels = length train_data" and "199 \<le> length train_data"
    and "test_data \<noteq> []" and "length test_labels = length test_data"
    and "\<forall>r\<in>set train_data. length r = 3" and "\<forall>r\<in>set test_data. length r = 3"
  shows "\<exists>scores.
      sweep (nearest_search tie) train_data train_labels test_data test_labels = Inr scores
    \<and> length scores = 199
    \<and> plot_points scores = map (\<lambda>k. (k, scores ! (k - 1))) [1..<200]
    \<and> (\<forall>k\<in>set [1..<200]. \<exists>y_pred.
          length y_pred = length test_data
        \<and> (\<forall>j<length test_data. \<exists>ind.
              k_nearest_rows train_data (test_data ! j) k ind
            \<and> majority_label (map (\<lambda>i. train_labels ! i) ind) (y_pred ! j))
        \<and> scores ! (k - 1)
            = real (length (filter (\<lambda>j. y_pred ! j = test_labels ! j) [0..<length test_data]))
              / real (length test_data))"
proof -
  let ?s = "nearest_search tie"
  let ?acc = "knn_accuracy ?s train_data train_labels test_data test_labels"
  let ?scores = "map ?acc [1..<200]"
  note sw = sweep_all_valid [OF assms(1-4), of ?s]
  have len: "length ?scores = 199" by simp
  have nth: "?scores ! (k - 1) = ?acc k" if "k \<in> set [1..<200]" for k
  proof -
    from that have "k - 1 < 199" and "1 + (k - 1) = k" by auto
    then show ?thesis by (simp add: nth_map [where n = "k - 1"])
  qed
  have "plot_points ?scores = map (\<lambda>k. (k, ?acc k)) [1..<200]"
    by (simp only: plot_points_def zip_map_same)
  also have "\<dots> = map (\<lambda>k. (k, ?scores ! (k - 1))) [1..<200]"
    by (rule map_cong) (simp_all only: nth)
  finally have pts: "plot_points ?scores = map (\<lambda>k. (k, ?scores ! (k - 1))) [1..<200]" .
  have each: "\<exists>y_pred.
          length y_pred = length test_data
        \<and> (\<forall>j<length test_data. \<exists>ind.
              k_nearest_rows train_data (test_data ! j) k ind
            \<and> majority_label (map (\<lambda>i. train_labels ! i) ind) (y_pred ! j))
        \<and> ?scores ! (k - 1)
            = real (length (filter (\<lambda>j. y_pred ! j = test_labels ! j) [0..<length test_data]))
              / real (length test_data)"
    if k: "k \<in> set [1..<200]" for k
  proof -
    let ?y_pred = "map (knn_label ?s k train_data train_labels) test_data"
    from k assms(2) have k1: "1 \<le> k" and kn: "k \<le> length train_data" by auto
    have votes: "\<exists>ind. k_nearest_rows train_data (test_data ! j) k ind
            \<and> majority_label (map (\<lambda>i. train_labels ! i) ind) (?y_pred ! j)"
      if j: "j < length test_data" for j
    proof -
      let ?q = "test_data ! j"
      let ?ind = "?s k train_data ?q"
      from j assms(6) have "length ?q = 3" by simp
      then have near: "k_nearest_rows train_data ?q k ?ind"
        by (rule nearest_search_k_nearest [OF kn assms(5)])
      then have "length ?ind = k" by (simp add: k_nearest_rows_def)
      with k1 have "map (\<lambda>i. train_labels ! i) ?ind \<noteq> []" by auto
      then have "majority_label (map (\<lambda>i. train_labels ! i) ?ind)
          (mode (map (\<lambda>i. train_labels ! i) ?ind))"
        by (rule mode_majority_label)
      moreover have "?y_pred ! j = mode (map (\<lambda>i. train_labels ! i) ?ind)"
        using j by (simp add: knn_label_def safe_indexing_def)
      ultimately show ?thesis using near by auto
    qed
    have "filter (\<lambda>j. knn_label ?s k train_data train_labels (test_data ! j) = test_labels ! j)
            [0..<length test_data]
        = filter (\<lambda>j. ?y_pred ! j = test_labels ! j) [0..<length test_data]"
      by (rule filter_cong) simp_all
    then have "?acc k
        = real (length (filter (\<lambda>j. ?y_pred ! j = test_labels ! j) [0..<length test_data]))
          / real (length test_data)"
      by (simp only: knn_accuracy_def)
    with votes nth [OF k] show ?thesis
      by (intro exI [of _ ?y_pred]) simp
  qed
  from sw len pts each show ?thesis by blast
qed

theorem sweep_output_witness:
  "length labels199 = length train199 \<and> 199 \<le> length train199
   \<and> [[0, 0, 0], [3, 0, 0 :: real]] \<noteq> []
   \<and> length [0, 1 :: nat] = length [[0, 0, 0], [3, 0, 0 :: real]]
   \<and> list_all (\<lambda>r. length r = 3) train199
   \<and> list_all (\<lambda>r. length r = 3) [[0, 0, 0], [3, 0, 0 :: real]]
   \<and> (\<exists>scores. sweep (nearest_search (\<lambda>k q i. i)) train199 labels199 [[0, 0, 0], [3, 0, 0]] [0, 1]
          = Inr scores
        \<and> length scores = 199
        \<and> plot_points scores ! 4 = (5, scores ! 4)
        \<and> (\<exists>y_pred. length y_pred = length [[0, 0, 0], [3, 0, 0 :: real]]
             \<and> (\<exists>ind. k_nearest_rows train199 [3, 0, 0] 5 ind
                  \<and> majority_label (map (\<lambda>i. labels199 ! i) ind) (y_pred ! 1))
             \<and> scores ! 4
                 = real (length (filter (\<lambda>j. y_pred ! j = [0, 1] ! j)
                     [0..<length [[0, 0, 0], [3, 0, 0 :: real]]]))
                   / real (length [[0, 0, 0], [3, 0, 0 :: real]])))"
proof -
  let ?test = "[[0, 0, 0], [3, 0, 0 :: real]]"
  let ?tl = "[0, 1 :: nat]"
  have l: "length labels199 = length train199" by (simp add: labels199_def train199_def)
  have n: "199 \<le> length train199" by (simp add: train199_def)
  have t: "?test \<noteq> []" by simp
  have tl: "length ?tl = length ?test" by simp
  have r: "\<forall>r\<in>set train199. length r = 3" by (auto simp: train199_def)
  have rt: "\<forall>r\<in>set ?test. length r = 3" by simp
  from sweep_output [where tie = "\<lambda>k q i. i", OF l n t tl r rt]
  obtain scores where sw: "sweep (nearest_search (\<lambda>k q i. i)) train199 labels199 ?test ?tl = Inr scores"
    and len: "length scores = 199"
    and pts: "plot_points scores = map (\<lambda>k. (k, scores ! (k - 1))) [1..<200]"
    and each: "\<forall>k\<in>set [1..<200]. \<exists>y_pred.
          length y_pred = length ?test
        \<and> (\<forall>j<length ?test. \<exists>ind.
              k_nearest_rows train199 (?test ! j) k ind
            \<and> majority_label (map (\<lambda>i. labels199 ! i) ind) (y_pred ! j))
        \<and> scores ! (k - 1)
            = real (length (filter (\<lambda>j. y_pred ! j = ?tl ! j) [0..<length ?test]))
              / real (length ?test)"
    by blast
  have five: "(5 :: nat) \<in> set [1..<200]" by simp
  from each five obtain y_pred where
    y: "length y_pred = length ?test"
    and v: "\<forall>j<length ?test. \<exists>ind.
              k_nearest_rows train199 (?test ! j) 5 ind
            \<and> majority_label (map (\<lambda>i. labels199 ! i) ind) (y_pred ! j)"
    and a: "scores ! (5 - 1)
            = real (length (filter (\<lambda>j. y_pred ! j = ?tl ! j) [0..<length ?test]))
              / real (length ?test)"
    by blast
  from v have v1: "\<exists>ind. k_nearest_rows train199 [3, 0, 0] 5 ind
            \<and> majority_label (map (\<lambda>i. labels199 ! i) ind) (y_pred ! 1)"
    by (simp add: less_Suc_eq eval_nat_numeral)
  have d: "(5 :: nat) - 1 = 4" by simp
  note a4 = a [unfolded d]
  have "plot_points scores ! 4 = (5, scores ! 4)"
    by (simp add: pts)
  with sw len y v1 a4 have "\<exists>scores. sweep (nearest_search (\<lambda>k q i. i)) train199 labels199 ?test ?tl
          = Inr scores
        \<and> length scores = 199
        \<and> plot_points scores ! 4 = (5, scores ! 4)
        \<and> (\<exists>y_pred. length y_pred = length ?test
             \<and> (\<exists>ind. k_nearest_rows train199 [3, 0, 0] 5 ind
                  \<and> majority_label (map (\<lambda>i. labels199 ! i) ind) (y_pred ! 1))
             \<and> scores ! 4
                 = real (length (filter (\<lambda>j. y_pred ! j = ?tl ! j) [0..<length ?test]))
                   / real (length ?test))"
    by blast
  with l n t tl r rt show ?thesis
    by (simp only: list_all_iff) blast
qed

text \<open>
  Claim C6, as the specification states it: every \<open>k\<close> of the sweep with \<open>k\<close> at least the
  number of training rows fails with InvalidK, \<open>k\<close> equal to that number included, and the
  failure is skipped or reported for that \<open>k\<close> without ending the sweep. With one training
  row, \<open>k = 1\<close> is evaluated without an error, and the sweep as a whole ends with the error
  raised for \<open>k = 2\<close>.
\<close>

theorem invalid_k_counterexample:
  "evaluate_k brute_search [[0, 0, 0]] [1] [[1, 1, 1]] [1] 1 = Inr 1
   \<and> sweep brute_search [[0, 0, 0]] [1] [[1, 1, 1]] [1] = Inl InvalidK"
proof
  show "evaluate_k brute_search [[0, 0, 0]] [1] [[1, 1, 1]] [1] 1 = Inr 1"
    by (simp add: evaluate_k_def fit_def KNeighborsClassifier_def score_def predict_def
        accuracy_score_def brute_search_def safe_indexing_def mode_def)
  show "sweep brute_search [[0, 0, 0]] [1] [[1, 1, 1]] [1] = Inl InvalidK"
    by (rule sweep_InvalidK) simp_all
qed

text \<open>
  Claim C6, amended. For every \<open>k\<close> greater than the number of training rows, evaluating
  that \<open>k\<close> fails with the InvalidK error; every \<open>k\<close> from 1 up to the number of training rows, that
  number included, is evaluated and gives its accuracy; and the error is not caught: when the
  training set has fewer than 199 rows, the whole sweep ends with InvalidK and returns no
  scores.
\<close>

theorem invalid_k_aborts_sweep:
  assumes "train_data \<noteq> []" and "length train_labels = length train_data"
    and "test_data \<noteq> []" and "length test_labels = length test_data"
  shows "(\<forall>k. length train_data < k \<longrightarrow>
            evaluate_k kneighbors train_data train_labels test_data test_labels k = Inl InvalidK)
    \<and> (\<forall>k. 1 \<le> k \<and> k \<le> length train_data \<longrightarrow>
            evaluate_k kneighbors train_data train_labels test_data test_labels k
            = Inr (knn_accuracy kneighbors train_data train_labels test_data test_labels k))
    \<and> (length train_data < 199 \<longrightarrow>
            sweep kneighbors train_data train_labels test_data test_labels = Inl InvalidK)"
  using evaluate_k_InvalidK [OF assms(1-3)] evaluate_k_ok [OF assms]
    sweep_InvalidK [OF assms]
  by (simp add: Suc_le_eq)

theorem invalid_k_aborts_sweep_witness:
  "[[0, 0, 0], [2, 2, 2 :: real]] \<noteq> [] \<and> length [0, 1 :: nat] = length [[0, 0, 0], [2, 2, 2 :: real]]
   \<and> [[3, 3, 3 :: real]] \<noteq> [] \<and> length [1 :: nat] = length [[3, 3, 3 :: real]]
   \<and> length [[0, 0, 0], [2, 2, 2 :: real]] < 3
   \<and> evaluate_k brute_search [[0, 0, 0], [2, 2, 2]] [0, 1] [[3, 3, 3]] [1] 3 = Inl InvalidK
   \<and> 2 \<le> length [[0, 0, 0], [2, 2, 2 :: real]]
   \<and> evaluate_k brute_search [[0, 0, 0], [2, 2, 2]] [0, 1] [[3, 3, 3]] [1] 2 = Inr 0
   \<and> length [[0, 0, 0], [2, 2, 2 :: real]] < 199
   \<and> sweep brute_search [[0, 0, 0], [2, 2, 2]] [0, 1] [[3, 3, 3]] [1] = Inl InvalidK"
proof -
  let ?X = "[[0, 0, 0], [2, 2, 2 :: real]]"
  have acc: "knn_accuracy brute_search ?X [0, 1] [[3, 3, 3]] [1] 2 = 0"
    by (simp add: knn_accuracy_def knn_label_def brute_search_def safe_indexing_def mode_def
        sq_dist_def upt_conv_Cons)
  from invalid_k_aborts_sweep [of ?X "[0, 1]" "[[3, 3, 3]]" "[1]" brute_search]
  have "evaluate_k brute_search ?X [0, 1] [[3, 3, 3]] [1] 3 = Inl InvalidK"
    and "evaluate_k brute_search ?X [0, 1] [[3, 3, 3]] [1] 2
       = Inr (knn_accuracy brute_search ?X [0, 1] [[3, 3, 3]] [1] 2)"
    and "sweep brute_search ?X [0, 1] [[3, 3, 3]] [1] = Inl InvalidK"
    by simp_all
  with acc show ?thesis by simp
qed

text \<open>
  Claim C9. The single evaluation for \<open>k = 5\<close> and the sweep agree: whenever the sweep
  returns its scores, the score of the 5-nearest-neighbour classifier of cell 12 on the same
  partition is the fifth entry of the sweep's scores, plotted at \<open>k = 5\<close>.
\<close>

theorem single_evaluation_agrees_with_sweep:
  assumes "sweep kneighbors train_data train_labels test_data test_labels = Inr scores"
  shows "model_score kneighbors train_data train_labels test_data test_labels = Inr (scores ! 4)
    \<and> length scores = 199
    \<and> plot_points scores ! 4 = (5, scores ! 4)"
proof -
  from assms have loop: "sweep_loop kneighbors train_data train_labels test_data test_labels [1..<200] []
      = Inr scores"
    by (simp only: sweep_def)
  from sweep_loop_Inr [OF loop] have len: "length scores = 199"
    and ev: "\<forall>i<length [1..<200].
        evaluate_k kneighbors train_data train_labels test_data test_labels ([1..<200] ! i)
          = Inr (scores ! (length ([] :: real list) + i))"
    by simp_all
  have "(4 :: nat) < length [1..<200]" by simp
  with ev have "evaluate_k kneighbors train_data train_labels test_data test_labels ([1..<200] ! 4)
          = Inr (scores ! (length ([] :: real list) + 4))"
    by blast
  then have five: "evaluate_k kneighbors train_data train_labels test_data test_labels 5 = Inr (scores ! 4)"
    by simp
  have "plot_points scores ! 4 = ([1..<200] ! 4, scores ! 4)"
    using len by (simp add: plot_points_def)
  then have "plot_points scores ! 4 = (5, scores ! 4)" by simp
  with five len show ?thesis by (simp only: model_score_evaluate_k)
qed

theorem single_evaluation_agrees_with_sweep_witness:
  "sweep brute_search train199 labels199 [[0, 0, 0], [3, 0, 0]] [0, 1]
     = Inr (map (knn_accuracy brute_search train199 labels199 [[0, 0, 0], [3, 0, 0]] [0, 1]) [1..<200])
   \<and> model_score brute_search train199 labels199 [[0, 0, 0], [3, 0, 0]] [0, 1]
     = Inr (knn_accuracy brute_search train199 labels199 [[0, 0, 0], [3, 0, 0]] [0, 1] 5)"
proof -
  let ?test = "[[0, 0, 0], [3, 0, 0 :: real]]"
  let ?acc = "knn_accuracy brute_search train199 labels199 ?test [0, 1]"
  have l: "length labels199 = length train199" by (simp add: labels199_def train199_def)
  have n: "199 \<le> length train199" by (simp add: train199_def)
  have sw: "sweep brute_search train199 labels199 ?test [0, 1] = Inr (map ?acc [1..<200])"
    by (rule sweep_all_valid [OF l n]) simp_all
  from single_evaluation_agrees_with_sweep [OF sw]
  have "model_score brute_search train199 labels199 ?test [0, 1] = Inr (map ?acc [1..<200] ! 4)"
    by blast
  then have "model_score brute_search train199 labels199 ?test [0, 1] = Inr (?acc 5)"
    by simp
  with sw show ?thesis by blast
qed

end
